theory Spec2Isabelle
  imports Main "HOL-Library.Word"
begin

unbundle bit_operations_syntax

section \<open>Octet strings and hash descriptors\<close>

text \<open>
  A C buffer \<open>(pointer, length)\<close> is a list of octets; its length parameter is the
  length of the list.  An \<open>EVP_MD\<close> is the hash descriptor the code receives: its digest
  size (\<open>EVP_MD_size\<close>, an \<open>int\<close> that is negative on error) and the one-shot digest
  (\<open>EVP_Digest\<close>, or the \<open>EVP_DigestInit_ex\<close>/\<open>Update\<close>/\<open>Final_ex\<close> sequence), which
  is \<open>None\<close> when one of the calls reports failure.  The hash implementations are not
  part of the sources, so the descriptor is a parameter of every function below.
\<close>

type_synonym octet = "8 word"
type_synonym octets = "octet list"

record EVP_MD =
  EVP_MD_size :: int
  EVP_Digest :: "octets \<Rightarrow> octets option"

text \<open>
  A well-behaved hash: the size is not negative and every digest call succeeds with
  exactly \<open>EVP_MD_size\<close> octets.
\<close>

definition hash_ok :: "EVP_MD \<Rightarrow> bool" where
  "hash_ok md \<longleftrightarrow>
     0 \<le> EVP_MD_size md \<and>
     (\<forall>x. \<exists>d. EVP_Digest md x = Some d \<and> int (length d) = EVP_MD_size md)"

definition hash_of :: "EVP_MD \<Rightarrow> octets \<Rightarrow> octets" where
  "hash_of md x = the (EVP_Digest md x)"

text \<open>
  The reason codes that \<open>rsa_oaep.c\<close> and \<open>sm2_sign.c\<close> raise.  \<open>ERR_EVP\<close> stands for
  the returns of \<open>rsa_oaep.c\<close> that follow a failed digest or mask generation call: the
  function returns its failure value without raising an error of its own.
\<close>

datatype err_code =
    RSA_R_DATA_TOO_LARGE_FOR_KEY_SIZE
  | RSA_R_KEY_SIZE_TOO_SMALL
  | RSA_R_OAEP_DECODING_ERROR
  | RSA_R_DATA_TOO_LARGE
  | ERR_R_MALLOC_FAILURE
  | ERR_EVP
  | ERR_R_EC_LIB
  | ERR_R_BN_LIB
  | ERR_R_EVP_LIB
  | SM2_R_RANDOM_NUMBER_GENERATION_FAILED
  | SM2_R_BAD_SIGNATURE
  | SM2_R_DIGEST_FAILURE

section \<open>MGF1\<close>

text \<open>
  The counter octets of \<open>PKCS1_MGF1\<close>:
  \<^verbatim>\<open>cnt[0] = (unsigned char)((i >> 24) & 255); ... cnt[3] = (unsigned char)(i & 255);\<close>
\<close>

definition mgf1_cnt :: "int \<Rightarrow> octets" where
  "mgf1_cnt i =
     [word_of_int (drop_bit 24 i AND 255),
      word_of_int (drop_bit 16 i AND 255),
      word_of_int (drop_bit 8 i) AND 255,
      word_of_int (i AND 255)]"

text \<open>
  The loop \<^verbatim>\<open>for (i = 0; outlen < len; i++)\<close> of \<open>PKCS1_MGF1\<close>.  The mask buffer is
  the list of the \<open>outlen\<close> octets written so far.  With a digest size of \<open>0\<close> and
  \<open>0 < len\<close> the loop never leaves, which is the value \<open>None\<close>.
\<close>

partial_function (option) PKCS1_MGF1_loop ::
  "EVP_MD \<Rightarrow> octets \<Rightarrow> int \<Rightarrow> int \<Rightarrow> int \<Rightarrow> octets \<Rightarrow> (err_code + octets) option"
where
  "PKCS1_MGF1_loop dgst seed len i outlen msk =
     (if outlen < len then
        (case EVP_Digest dgst (seed @ mgf1_cnt i) of
           None \<Rightarrow> Some (Inl ERR_EVP)
         | Some md \<Rightarrow>
             if outlen + EVP_MD_size dgst \<le> len
             then PKCS1_MGF1_loop dgst seed len (i + 1) (outlen + EVP_MD_size dgst) (msk @ md)
             else PKCS1_MGF1_loop dgst seed len (i + 1) len
                    (msk @ take (nat (len - outlen)) md))
      else Some (Inr msk))"

declare PKCS1_MGF1_loop.simps [code]

definition PKCS1_MGF1 :: "int \<Rightarrow> octets \<Rightarrow> EVP_MD \<Rightarrow> (err_code + octets) option" where
  "PKCS1_MGF1 len seed dgst =
     (if EVP_MD_size dgst < 0 then Some (Inl ERR_EVP)
      else PKCS1_MGF1_loop dgst seed len 0 0 [])"

subsection \<open>MGF1 as the specification words it\<close>

text \<open>
  \<open>I2OSP x xLen\<close> is the big-endian encoding of \<open>x\<close> in \<open>xLen\<close> octets (the low
  \<open>xLen\<close> base-256 digits of \<open>x\<close>; it represents \<open>x\<close> itself when \<open>x < 256 ^ xLen\<close>),
  and \<open>OS2IP\<close> reads such an encoding back.
\<close>

definition I2OSP :: "nat \<Rightarrow> nat \<Rightarrow> octets" where
  "I2OSP x xLen = map (\<lambda>j. of_nat (x div 256 ^ (xLen - 1 - j) mod 256)) [0..<xLen]"

definition OS2IP :: "octets \<Rightarrow> nat" where
  "OS2IP bs = foldl (\<lambda>acc b. acc * 256 + unat b) 0 bs"

text \<open>
  \<open>T_i = hash(seed || I2OSP(i, 4))\<close> for \<open>i = 0, ..., ceil(len / hLen) - 1\<close>,
  concatenated and truncated to \<open>len\<close> octets.
\<close>

definition mgf1_spec :: "(octets \<Rightarrow> octets) \<Rightarrow> nat \<Rightarrow> octets \<Rightarrow> nat \<Rightarrow> octets" where
  "mgf1_spec H hLen seed len =
     take len (concat (map (\<lambda>i. H (seed @ I2OSP i 4)) [0..<(len + hLen - 1) div hLen]))"

section \<open>OAEP encoding and decoding\<close>

text \<open>
  \<open>md == NULL\<close> selects \<open>EVP_sha1()\<close> and \<open>mgf1md == NULL\<close> selects \<open>md\<close>.  The SHA-1
  descriptor is not part of the sources and is the parameter \<open>sha1\<close>.
\<close>

definition oaep_md :: "EVP_MD \<Rightarrow> EVP_MD option \<Rightarrow> EVP_MD" where
  "oaep_md sha1 md = (case md of None \<Rightarrow> sha1 | Some m \<Rightarrow> m)"

definition oaep_mgf1md :: "EVP_MD \<Rightarrow> EVP_MD option \<Rightarrow> EVP_MD option \<Rightarrow> EVP_MD" where
  "oaep_mgf1md sha1 md mgf1md = (case mgf1md of None \<Rightarrow> oaep_md sha1 md | Some m \<Rightarrow> m)"

text \<open>\<open>arc4random_buf(buf, n)\<close> fills \<open>n\<close> octets from the random source, a stream of octets.\<close>

definition arc4random_buf :: "(nat \<Rightarrow> octet) \<Rightarrow> nat \<Rightarrow> octets" where
  "arc4random_buf rnd n = map rnd [0..<n]"

text \<open>The loops \<^verbatim>\<open>for (i = 0; i < n; i++) a[i] ^= b[i]\<close>.\<close>

definition xor_octets :: "octets \<Rightarrow> octets \<Rightarrow> octets" where
  "xor_octets a b = map2 (XOR) a b"

text \<open>
  \<open>RSA_padding_add_PKCS1_OAEP_mgf1(to, tlen, from, flen, param, plen, md, mgf1md)\<close>.
  \<open>mem\<close> tells whether \<open>malloc\<close> succeeds and \<open>rnd\<close> is the random source.  The result is
  the content of \<open>to[0 .. tlen)\<close> on success (return value 1).
\<close>

definition RSA_padding_add_PKCS1_OAEP_mgf1 ::
  "EVP_MD \<Rightarrow> bool \<Rightarrow> (nat \<Rightarrow> octet) \<Rightarrow> int \<Rightarrow> octets \<Rightarrow> octets \<Rightarrow> EVP_MD option \<Rightarrow> EVP_MD option
     \<Rightarrow> (err_code + octets) option"
where
  "RSA_padding_add_PKCS1_OAEP_mgf1 sha1 mem rnd tlen frm param md0 mgf1md0 =
     (let md = oaep_md sha1 md0;
          mgf1md = oaep_mgf1md sha1 md0 mgf1md0;
          emlen = tlen - 1;
          flen = int (length frm);
          mdlen = EVP_MD_size md
      in if flen > emlen - 2 * mdlen - 1 then Some (Inl RSA_R_DATA_TOO_LARGE_FOR_KEY_SIZE)
         else if emlen < 2 * mdlen + 1 then Some (Inl RSA_R_KEY_SIZE_TOO_SMALL)
         else
           (case EVP_Digest md param of
              None \<Rightarrow> Some (Inl ERR_EVP)
            | Some lhash \<Rightarrow>
                let db = lhash @ replicate (nat (emlen - flen - 2 * mdlen - 1)) 0 @ [1] @ frm;
                    seed = arc4random_buf rnd (nat mdlen);
                    dbmasklen = emlen - mdlen
                in if \<not> mem then Some (Inl ERR_R_MALLOC_FAILURE)
                   else
                     (case PKCS1_MGF1 dbmasklen seed mgf1md of
                        None \<Rightarrow> None
                      | Some (Inl err) \<Rightarrow> Some (Inl err)
                      | Some (Inr dbmask) \<Rightarrow>
                          let maskeddb = xor_octets db dbmask
                          in (case PKCS1_MGF1 mdlen maskeddb mgf1md of
                                None \<Rightarrow> None
                              | Some (Inl err) \<Rightarrow> Some (Inl err)
                              | Some (Inr seedmask) \<Rightarrow>
                                  Some (Inr (0 # xor_octets seed seedmask @ maskeddb))))))"

text \<open>
  The scan \<^verbatim>\<open>for (i = mdlen; i < dblen; i++) if (db[i] != 0x00) break;\<close> of the decoder;
  the result is the value of \<open>i\<close> after the loop.
\<close>

function oaep_scan :: "octets \<Rightarrow> nat \<Rightarrow> nat \<Rightarrow> nat" where
  "oaep_scan db i dblen = (if i < dblen \<and> db ! i = 0 then oaep_scan db (Suc i) dblen else i)"
  by pat_completeness auto
termination
  by (relation "measure (\<lambda>(db, i, dblen). dblen - i)") auto

text \<open>
  \<open>RSA_padding_check_PKCS1_OAEP_mgf1(to, tlen, from, flen, num, param, plen, md, mgf1md)\<close>.
  The output buffer \<open>to\<close> of \<open>tlen\<close> octets is passed in and returned, next to the return
  value: \<open>Inr mlen\<close> for the plaintext length, \<open>Inl\<close> for the return value \<open>-1\<close> with the
  error raised.

  \<open>oaep_check_db\<close> is the last part of the function, from
  \<^verbatim>\<open>if (timingsafe_memcmp(db, phash, mdlen) != 0 || bad)\<close> on, once \<open>db\<close> is unmasked and
  \<open>phash\<close> computed.
\<close>

definition oaep_check_db ::
  "octets \<Rightarrow> octets \<Rightarrow> octets \<Rightarrow> bool \<Rightarrow> int \<Rightarrow> int \<Rightarrow> (err_code + int) \<times> octets"
where
  "oaep_check_db tobuf db phash bad mdlen dblen =
     (if take (nat mdlen) db \<noteq> take (nat mdlen) phash \<or> bad
      then (Inl RSA_R_OAEP_DECODING_ERROR, tobuf)
      else
        let i = oaep_scan db (nat mdlen) (nat dblen)
        in if int i = dblen \<or> db ! i \<noteq> 1
           then (Inl RSA_R_OAEP_DECODING_ERROR, tobuf)
           else
             let mlen = dblen - int (Suc i)
             in if int (length tobuf) < mlen
                then (Inl RSA_R_DATA_TOO_LARGE, tobuf)
                else (Inr mlen, take (nat mlen) (drop (Suc i) db) @ drop (nat mlen) tobuf))"

definition RSA_padding_check_PKCS1_OAEP_mgf1 ::
  "EVP_MD \<Rightarrow> bool \<Rightarrow> octets \<Rightarrow> octets \<Rightarrow> int \<Rightarrow> octets \<Rightarrow> EVP_MD option \<Rightarrow> EVP_MD option
     \<Rightarrow> ((err_code + int) \<times> octets) option"
where
  "RSA_padding_check_PKCS1_OAEP_mgf1 sha1 mem tobuf frm num0 param md0 mgf1md0 =
     (let md = oaep_md sha1 md0;
          mgf1md = oaep_mgf1md sha1 md0 mgf1md0;
          mdlen = EVP_MD_size md;
          num = num0 - 1
      in if num < 2 * mdlen + 1 then Some (Inl RSA_R_OAEP_DECODING_ERROR, tobuf)
         else
           let bad = (num - int (length frm) < 0);
               lzero = (if bad then 0 else num - int (length frm));
               flen = (if bad then num else int (length frm));
               dblen = num - mdlen
           in if \<not> mem then Some (Inl ERR_R_MALLOC_FAILURE, tobuf)
              else
                let padded_from = replicate (nat lzero) 0 @ take (nat flen) frm;
                    maskeddb = drop (nat mdlen) padded_from
                in (case PKCS1_MGF1 mdlen maskeddb mgf1md of
                      None \<Rightarrow> None
                    | Some (Inl err) \<Rightarrow> Some (Inl ERR_EVP, tobuf)
                    | Some (Inr seedmask) \<Rightarrow>
                        let seed = xor_octets seedmask (take (nat mdlen) padded_from)
                        in (case PKCS1_MGF1 dblen seed mgf1md of
                              None \<Rightarrow> None
                            | Some (Inl err) \<Rightarrow> Some (Inl ERR_EVP, tobuf)
                            | Some (Inr dbmask) \<Rightarrow>
                                let db = xor_octets dbmask maskeddb
                                in (case EVP_Digest md param of
                                      None \<Rightarrow> Some (Inl ERR_EVP, tobuf)
                                    | Some phash \<Rightarrow>
                                        Some (oaep_check_db tobuf db phash bad mdlen dblen)))))"

subsection \<open>The OAEP transform as the specification words it\<close>

text \<open>
  The mask generation function of a hash, the data block \<open>DB = lHash || PS || 0x01 || msg\<close>
  of the encoder, its masking, and the steps of the decoder: the block zero-padded on the
  left to \<open>emLen - 1\<close> octets, unmasked, and the part of \<open>DB\<close> after the zero octets
  \<open>PS\<close>.  \<open>oaep_padding_bad\<close> collects the padding checks of the decoder: the caller's
  length exceeds the block, the label hash differs, the scan runs to the end of \<open>DB\<close>, or
  the first nonzero octet is not \<open>0x01\<close>.
\<close>

definition MGF :: "EVP_MD \<Rightarrow> octets \<Rightarrow> nat \<Rightarrow> octets" where
  "MGF dgst seed len = mgf1_spec (hash_of dgst) (nat (EVP_MD_size dgst)) seed len"

definition oaep_unmask :: "EVP_MD \<Rightarrow> nat \<Rightarrow> octets \<Rightarrow> octets" where
  "oaep_unmask mgf hLen em =
     (let maskedSeed = take hLen em;
          maskedDB = drop hLen em;
          seed = xor_octets maskedSeed (MGF mgf maskedDB hLen)
      in xor_octets maskedDB (MGF mgf seed (length maskedDB)))"

definition oaep_EM :: "int \<Rightarrow> octets \<Rightarrow> octets" where
  "oaep_EM num frm = replicate (nat (num - 1) - length frm) 0 @ frm"

definition oaep_DB :: "EVP_MD \<Rightarrow> EVP_MD \<Rightarrow> int \<Rightarrow> octets \<Rightarrow> octets" where
  "oaep_DB md mgf num frm = oaep_unmask mgf (nat (EVP_MD_size md)) (oaep_EM num frm)"

definition oaep_after_PS :: "EVP_MD \<Rightarrow> octets \<Rightarrow> octets" where
  "oaep_after_PS md DB = dropWhile (\<lambda>b. b = 0) (drop (nat (EVP_MD_size md)) DB)"

definition oaep_padding_bad :: "EVP_MD \<Rightarrow> EVP_MD \<Rightarrow> int \<Rightarrow> octets \<Rightarrow> octets \<Rightarrow> bool" where
  "oaep_padding_bad md mgf num frm label \<longleftrightarrow>
     num - 1 < int (length frm) \<or>
     take (nat (EVP_MD_size md)) (oaep_DB md mgf num frm) \<noteq> hash_of md label \<or>
     oaep_after_PS md (oaep_DB md mgf num frm) = [] \<or>
     hd (oaep_after_PS md (oaep_DB md mgf num frm)) \<noteq> 1"

definition oaep_pad_DB :: "EVP_MD \<Rightarrow> int \<Rightarrow> octets \<Rightarrow> octets \<Rightarrow> octets" where
  "oaep_pad_DB md emLen label msg =
     hash_of md label
       @ replicate (nat (emLen - int (length msg) - 2 * EVP_MD_size md - 2)) 0 @ [1] @ msg"

definition oaep_mask :: "EVP_MD \<Rightarrow> octets \<Rightarrow> octets \<Rightarrow> octets" where
  "oaep_mask mgf seed DB =
     (let maskedDB = xor_octets DB (MGF mgf seed (length DB));
          maskedSeed = xor_octets seed (MGF mgf maskedDB (length seed))
      in maskedSeed @ maskedDB)"

text \<open>The plaintext the decoder recovers: what follows the \<open>0x01\<close> separator.\<close>

definition oaep_recovered :: "EVP_MD \<Rightarrow> EVP_MD \<Rightarrow> int \<Rightarrow> octets \<Rightarrow> octets" where
  "oaep_recovered md mgf num frm = tl (oaep_after_PS md (oaep_DB md mgf num frm))"

section \<open>Big integers and the elliptic-curve group\<close>

text \<open>
  \<open>sm2_sign.c\<close> computes with the big-integer and elliptic-curve functions of the library,
  which are not part of the sources.  A \<open>BIGNUM\<close> is an \<open>int\<close>.  A function that
  reports failure returns \<open>None\<close>.
\<close>

text \<open>
  Modelled from the spec: \<open>BN_mod_add\<close> and \<open>BN_mod_mul\<close> are missing from the sources;
  they are the modular add and mul of the big-integer facility, with a result in
  \<open>[0, |m|)\<close>, and fail for the modulus \<open>0\<close>.
\<close>

definition BN_mod_add :: "int \<Rightarrow> int \<Rightarrow> int \<Rightarrow> int option" where
  "BN_mod_add a b m = (if m = 0 then None else Some ((a + b) mod \<bar>m\<bar>))"

definition BN_mod_mul :: "int \<Rightarrow> int \<Rightarrow> int \<Rightarrow> int option" where
  "BN_mod_mul a b m = (if m = 0 then None else Some ((a * b) mod \<bar>m\<bar>))"

text \<open>
  Modelled from the spec: \<open>BN_mod_inverse\<close> is missing from the sources; it is the modular
  inverse of the big-integer facility: the \<open>x\<close> in \<open>[0, n)\<close> with \<open>a * x mod n = 1\<close>, and
  failure when there is none.
\<close>

definition BN_mod_inverse :: "int \<Rightarrow> int \<Rightarrow> int option" where
  "BN_mod_inverse a n = List.find (\<lambda>x. (a * x) mod n = 1) [0..n - 1]"

text \<open>
  Modelled from the spec: \<open>BN_rand_range\<close> is missing from the sources; it is the sampling
  in \<open>[0, n)\<close> of the big-integer facility, on top of a random source that can fail.  The
  argument \<open>raw\<close> is what the random source delivers for this call: \<open>None\<close> for a failure,
  or an integer that is reduced into the range.  On \<open>[0, n)\<close> the reduction is the
  identity, so a source that is uniform on \<open>[0, n)\<close> gives a uniform result.
\<close>

definition BN_rand_range :: "int option \<Rightarrow> int \<Rightarrow> int option" where
  "BN_rand_range raw n =
     (case raw of None \<Rightarrow> None | Some x \<Rightarrow> if n \<le> 0 then None else Some (x mod n))"

text \<open>
  Modelled from the spec: \<open>BN_bin2bn\<close> is missing from the sources; it is the construction
  of a big integer from a big-endian octet string.
\<close>

definition BN_bin2bn :: "octets \<Rightarrow> int" where
  "BN_bin2bn bs = foldl (\<lambda>acc b. acc * 256 + uint b) 0 bs"

text \<open>
  Modelled from the spec: the elliptic-curve group is missing from the sources; it is a
  short-Weierstrass curve \<open>y\<^sup>2 = x\<^sup>3 + a x + b\<close> over the prime field of \<open>p\<close> elements with
  a base point \<open>G\<close> of order \<open>n\<close>.  A point is the identity or an affine pair.  The group
  operation \<open>ec_add\<close> is the chord-and-tangent addition, with the inverse \<open>fp_inv\<close> of the
  field, and the scalar multiplication \<open>ec_mul\<close> is repeated addition.
\<close>

datatype EC_POINT = Infinity | Affine int int

record EC_GROUP =
  ec_p :: int
  ec_a :: int
  ec_b :: int
  ec_G :: EC_POINT
  ec_order :: int

definition fp_inv :: "int \<Rightarrow> int \<Rightarrow> int" where
  "fp_inv p x = (case BN_mod_inverse x p of None \<Rightarrow> 0 | Some y \<Rightarrow> y)"

fun ec_add :: "EC_GROUP \<Rightarrow> EC_POINT \<Rightarrow> EC_POINT \<Rightarrow> EC_POINT" where
  "ec_add g Infinity Q = Q"
| "ec_add g P Infinity = P"
| "ec_add g (Affine x1 y1) (Affine x2 y2) =
     (if x1 = x2 \<and> (y1 + y2) mod ec_p g = 0 then Infinity
      else
        let l = (if x1 = x2 then (3 * x1 * x1 + ec_a g) * fp_inv (ec_p g) (2 * y1)
                 else (y2 - y1) * fp_inv (ec_p g) (x2 - x1)) mod ec_p g;
            x3 = (l * l - x1 - x2) mod ec_p g
        in Affine x3 ((l * (x1 - x3) - y1) mod ec_p g))"

primrec ec_mul :: "EC_GROUP \<Rightarrow> nat \<Rightarrow> EC_POINT \<Rightarrow> EC_POINT" where
  "ec_mul g 0 P = Infinity"
| "ec_mul g (Suc k) P = ec_add g P (ec_mul g k P)"

text \<open>
  Modelled from the spec: \<open>EC_GROUP_get_order\<close> is missing from the sources; it is the
  \<open>order()\<close> of the group.
\<close>

definition EC_GROUP_get_order :: "EC_GROUP \<Rightarrow> int option" where
  "EC_GROUP_get_order grp = Some (ec_order grp)"

text \<open>
  Modelled from the spec: \<open>EC_POINT_mul\<close> is missing from the sources; it is the scalar
  multiplication of the group: \<open>EC_POINT_mul group n (q, m)\<close> is \<open>[n]G + [m]q\<close>, and \<open>[n]G\<close>
  when \<open>q\<close> is \<open>NULL\<close>.
\<close>

definition EC_POINT_mul :: "EC_GROUP \<Rightarrow> int \<Rightarrow> (EC_POINT \<times> int) option \<Rightarrow> EC_POINT option" where
  "EC_POINT_mul grp n qm =
     Some (case qm of
             None \<Rightarrow> ec_mul grp (nat n) (ec_G grp)
           | Some (q, m) \<Rightarrow> ec_add grp (ec_mul grp (nat n) (ec_G grp)) (ec_mul grp (nat m) q))"

text \<open>
  Modelled from the spec: \<open>EC_POINT_get_affine_coordinates_GFp\<close> is missing from the
  sources; it is the affine-coordinate extraction of a point that is not the identity
  (the code asks for the x-coordinate only), and fails for the identity.
\<close>

definition EC_POINT_get_affine_coordinates_GFp :: "EC_GROUP \<Rightarrow> EC_POINT \<Rightarrow> int option" where
  "EC_POINT_get_affine_coordinates_GFp grp pt =
     (case pt of Infinity \<Rightarrow> None | Affine x y \<Rightarrow> Some x)"

section \<open>SM2 signatures\<close>

text \<open>
  An \<open>EC_KEY\<close> holds the group, the private scalar \<open>dA\<close> and the public point \<open>PA\<close>; an
  \<open>ECDSA_SIG\<close> is the pair \<open>(r, s)\<close>.
\<close>

record EC_KEY =
  EC_KEY_get0_group :: EC_GROUP
  EC_KEY_get0_private_key :: int
  EC_KEY_get0_public_key :: EC_POINT

type_synonym ECDSA_SIG = "int \<times> int"

text \<open>
  \<open>SM2_compute_msg_hash\<close>: \<open>e = H(ZA || M)\<close> as a big integer.  \<open>SM2_compute_userid_digest\<close>
  is not part of the sources and is the parameter \<open>za_fn\<close>; \<open>mem\<close> tells whether the
  allocations succeed.  The result \<open>Inl\<close> is the return value \<open>NULL\<close> with the error raised.
\<close>

definition SM2_compute_msg_hash ::
  "bool \<Rightarrow> (EVP_MD \<Rightarrow> octets \<Rightarrow> EC_KEY \<Rightarrow> octets option) \<Rightarrow> EVP_MD \<Rightarrow> EC_KEY \<Rightarrow> octets \<Rightarrow> octets
     \<Rightarrow> err_code + int"
where
  "SM2_compute_msg_hash mem za_fn digest key user_id msg =
     (let md_size = EVP_MD_size digest
      in if \<not> mem then Inl ERR_R_MALLOC_FAILURE
         else
           (case za_fn digest user_id key of
              None \<Rightarrow> Inl SM2_R_DIGEST_FAILURE
            | Some za \<Rightarrow>
                (case EVP_Digest digest (take (nat md_size) za @ msg) of
                   None \<Rightarrow> Inl ERR_R_EVP_LIB
                 | Some h \<Rightarrow> Inr (BN_bin2bn (take (nat md_size) h)))))"

text \<open>
  One pass through the body of the loop \<^verbatim>\<open>for (;;)\<close> of \<open>SM2_sig_gen\<close>: the pass ends with
  \<^verbatim>\<open>continue\<close>, with \<^verbatim>\<open>break\<close> and the signature, or with \<^verbatim>\<open>goto done\<close> and the error
  raised.  \<open>raw\<close> is what the random source delivers to this pass.
\<close>

datatype 'a loop_step = Continue | Break 'a | Goto_done err_code

definition SM2_sig_gen_iter ::
  "EC_GROUP \<Rightarrow> int \<Rightarrow> int \<Rightarrow> int \<Rightarrow> int option \<Rightarrow> ECDSA_SIG loop_step"
where
  "SM2_sig_gen_iter grp dA e order raw =
     (case BN_rand_range raw order of
        None \<Rightarrow> Goto_done SM2_R_RANDOM_NUMBER_GENERATION_FAILED
      | Some k \<Rightarrow>
          (case EC_POINT_mul grp k None of
             None \<Rightarrow> Goto_done ERR_R_EC_LIB
           | Some kG \<Rightarrow>
               (case EC_POINT_get_affine_coordinates_GFp grp kG of
                  None \<Rightarrow> Goto_done ERR_R_EC_LIB
                | Some x1 \<Rightarrow>
                    (case BN_mod_add e x1 order of
                       None \<Rightarrow> Goto_done ERR_R_BN_LIB
                     | Some r \<Rightarrow>
                         if r = 0 then Continue
                         else if r + k = order then Continue
                         else
                           (case BN_mod_inverse (dA + 1) order of
                              None \<Rightarrow> Goto_done ERR_R_BN_LIB
                            | Some s1 \<Rightarrow>
                                (case BN_mod_mul dA r order of
                                   None \<Rightarrow> Goto_done ERR_R_BN_LIB
                                 | Some tmp \<Rightarrow>
                                     (case BN_mod_mul s1 (k - tmp) order of
                                        None \<Rightarrow> Goto_done ERR_R_BN_LIB
                                      | Some s \<Rightarrow> Break (r, s))))))))"

text \<open>
  The loop itself.  \<open>rng i\<close> is what the random source delivers to the \<open>i\<close>-th call of
  \<open>BN_rand_range\<close>.  A loop that never leaves is the value \<open>None\<close>.
\<close>

partial_function (option) SM2_sig_gen_loop ::
  "EC_GROUP \<Rightarrow> int \<Rightarrow> int \<Rightarrow> int \<Rightarrow> (nat \<Rightarrow> int option) \<Rightarrow> nat \<Rightarrow> (err_code + ECDSA_SIG) option"
where
  "SM2_sig_gen_loop grp dA e order rng i =
     (case SM2_sig_gen_iter grp dA e order (rng i) of
        Continue \<Rightarrow> SM2_sig_gen_loop grp dA e order rng (Suc i)
      | Break sig \<Rightarrow> Some (Inr sig)
      | Goto_done err \<Rightarrow> Some (Inl err))"

declare SM2_sig_gen_loop.simps [code]

definition SM2_sig_gen ::
  "bool \<Rightarrow> (nat \<Rightarrow> int option) \<Rightarrow> EC_KEY \<Rightarrow> int \<Rightarrow> (err_code + ECDSA_SIG) option"
where
  "SM2_sig_gen mem rng key e =
     (let dA = EC_KEY_get0_private_key key;
          grp = EC_KEY_get0_group key
      in if \<not> mem then Some (Inl ERR_R_MALLOC_FAILURE)
         else
           (case EC_GROUP_get_order grp of
              None \<Rightarrow> Some (Inl ERR_R_EC_LIB)
            | Some order \<Rightarrow> SM2_sig_gen_loop grp dA e order rng 0))"

text \<open>
  \<open>SM2_sig_verify\<close>: the return value (\<open>1\<close> accepts, \<open>0\<close> rejects) and the error raised, if
  any.
\<close>

definition SM2_sig_verify :: "bool \<Rightarrow> EC_KEY \<Rightarrow> ECDSA_SIG \<Rightarrow> int \<Rightarrow> int \<times> err_code option" where
  "SM2_sig_verify mem key sig e =
     (let grp = EC_KEY_get0_group key
      in if \<not> mem then (0, Some ERR_R_MALLOC_FAILURE)
         else
           (case EC_GROUP_get_order grp of
              None \<Rightarrow> (0, Some ERR_R_EC_LIB)
            | Some order \<Rightarrow>
                let r = fst sig; s = snd sig
                in if r < 1 \<or> s < 1 then (0, Some SM2_R_BAD_SIGNATURE)
                   else if order \<le> r \<or> order \<le> s then (0, Some SM2_R_BAD_SIGNATURE)
                   else
                     (case BN_mod_add r s order of
                        None \<Rightarrow> (0, Some ERR_R_BN_LIB)
                      | Some t \<Rightarrow>
                          if t = 0 then (0, Some SM2_R_BAD_SIGNATURE)
                          else
                            (case EC_POINT_mul grp s (Some (EC_KEY_get0_public_key key, t)) of
                               None \<Rightarrow> (0, Some ERR_R_EC_LIB)
                             | Some pt \<Rightarrow>
                                 (case EC_POINT_get_affine_coordinates_GFp grp pt of
                                    None \<Rightarrow> (0, Some ERR_R_EC_LIB)
                                  | Some x1 \<Rightarrow>
                                      (case BN_mod_add e x1 order of
                                         None \<Rightarrow> (0, Some ERR_R_BN_LIB)
                                       | Some t' \<Rightarrow> if r = t' then (1, None) else (0, None)))))))"

text \<open>
  \<open>SM2_do_sign\<close> and \<open>SM2_do_verify\<close>: the message is hashed with \<open>ZA\<close> first.
  \<open>SM2_do_verify\<close> returns \<open>-1\<close> when the hash fails.
\<close>

definition SM2_do_sign ::
  "bool \<Rightarrow> (nat \<Rightarrow> int option) \<Rightarrow> (EVP_MD \<Rightarrow> octets \<Rightarrow> EC_KEY \<Rightarrow> octets option) \<Rightarrow> EC_KEY \<Rightarrow> EVP_MD
     \<Rightarrow> octets \<Rightarrow> octets \<Rightarrow> (err_code + ECDSA_SIG) option"
where
  "SM2_do_sign mem rng za_fn key digest user_id msg =
     (case SM2_compute_msg_hash mem za_fn digest key user_id msg of
        Inl err \<Rightarrow> Some (Inl SM2_R_DIGEST_FAILURE)
      | Inr e \<Rightarrow> SM2_sig_gen mem rng key e)"

definition SM2_do_verify ::
  "bool \<Rightarrow> (EVP_MD \<Rightarrow> octets \<Rightarrow> EC_KEY \<Rightarrow> octets option) \<Rightarrow> EC_KEY \<Rightarrow> EVP_MD \<Rightarrow> ECDSA_SIG
     \<Rightarrow> octets \<Rightarrow> octets \<Rightarrow> int \<times> err_code option"
where
  "SM2_do_verify mem za_fn key digest sig user_id msg =
     (case SM2_compute_msg_hash mem za_fn digest key user_id msg of
        Inl err \<Rightarrow> (- 1, Some SM2_R_DIGEST_FAILURE)
      | Inr e \<Rightarrow> SM2_sig_verify mem key sig e)"

text \<open>
  The result of a pass that leaves the loop, and "the loop started at pass \<open>i\<close> returns
  \<open>res\<close>": some pass \<open>i + d\<close> leaves the loop with \<open>res\<close> after \<open>d\<close> passes that restart.
\<close>

definition step_result :: "ECDSA_SIG loop_step \<Rightarrow> (err_code + ECDSA_SIG) option" where
  "step_result st =
     (case st of Continue \<Rightarrow> None | Break sg \<Rightarrow> Some (Inr sg) | Goto_done err \<Rightarrow> Some (Inl err))"

definition returns_at ::
  "EC_GROUP \<Rightarrow> int \<Rightarrow> int \<Rightarrow> int \<Rightarrow> (nat \<Rightarrow> int option) \<Rightarrow> nat \<Rightarrow> (err_code + ECDSA_SIG) \<Rightarrow> bool"
where
  "returns_at grp dA e n rng i res \<longleftrightarrow>
     (\<exists>d. (\<forall>l. i \<le> l \<and> l < i + d \<longrightarrow> SM2_sig_gen_iter grp dA e n (rng l) = Continue)
           \<and> step_result (SM2_sig_gen_iter grp dA e n (rng (i + d))) = Some res)"

text \<open>
  A pass of the signing loop as the specification words it, for the nonce \<open>k\<close>:
  \<open>(x1, _) = affine([k]G)\<close>, \<open>r = (e + x1) mod n\<close>, restart if \<open>r = 0\<close> or \<open>r + k = n\<close>,
  \<open>s = ((1 + dA)\<^sup>-\<^sup>1 (k - r dA)) mod n\<close>; and the condition under which the pass that draws
  \<open>raw\<close> restarts.
\<close>

definition sm2_sign_pass :: "EC_GROUP \<Rightarrow> int \<Rightarrow> int \<Rightarrow> int \<Rightarrow> int \<Rightarrow> ECDSA_SIG loop_step" where
  "sm2_sign_pass grp dA e n k =
     (case ec_mul grp (nat k) (ec_G grp) of
        Infinity \<Rightarrow> Goto_done ERR_R_EC_LIB
      | Affine x1 y1 \<Rightarrow>
          let r = (e + x1) mod n
          in if r = 0 \<or> r + k = n then Continue
             else
               (case BN_mod_inverse (1 + dA) n of
                  None \<Rightarrow> Goto_done ERR_R_BN_LIB
                | Some di \<Rightarrow> Break (r, (di * (k - r * dA)) mod n)))"

definition sm2_pass_restarts :: "EC_GROUP \<Rightarrow> int \<Rightarrow> int \<Rightarrow> int option \<Rightarrow> bool" where
  "sm2_pass_restarts grp e n raw =
     (case BN_rand_range raw n of
        None \<Rightarrow> False
      | Some k \<Rightarrow>
          (case ec_mul grp (nat k) (ec_G grp) of
             Infinity \<Rightarrow> False
           | Affine x1 y1 \<Rightarrow> (e + x1) mod n = 0 \<or> (e + x1) mod n + k = n))"

text \<open>The point \<open>P = [s]G + [t]PA\<close> with \<open>t = (r + s) mod n\<close> of the verification.\<close>

definition sm2_verify_point :: "EC_KEY \<Rightarrow> int \<Rightarrow> int \<Rightarrow> EC_POINT" where
  "sm2_verify_point key r s =
     (let grp = EC_KEY_get0_group key;
          t = (r + s) mod ec_order grp
      in ec_add grp (ec_mul grp (nat s) (ec_G grp)) (ec_mul grp (nat t) (EC_KEY_get0_public_key key)))"

text \<open>
  Two properties of a key and its group that the round trip of sign and verify rests on:
  the multiples of the base point add up as their scalars do modulo the order (checked
  over all pairs of scalars below the order, so that it can be evaluated on a concrete
  group), and the key is a valid pair: \<open>dA\<close> in \<open>[1, n - 1]\<close> and \<open>PA = [dA]G\<close>.
\<close>

definition ec_additive :: "EC_GROUP \<Rightarrow> bool" where
  "ec_additive grp \<longleftrightarrow>
     list_all (\<lambda>a. list_all (\<lambda>b.
         ec_add grp (ec_mul grp a (ec_G grp)) (ec_mul grp b (ec_G grp))
           = ec_mul grp ((a + b) mod nat (ec_order grp)) (ec_G grp))
       [0..<nat (ec_order grp)]) [0..<nat (ec_order grp)]"

definition sm2_valid_key :: "EC_KEY \<Rightarrow> bool" where
  "sm2_valid_key key \<longleftrightarrow>
     1 \<le> EC_KEY_get0_private_key key
     \<and> EC_KEY_get0_private_key key < ec_order (EC_KEY_get0_group key)
     \<and> EC_KEY_get0_public_key key
         = ec_mul (EC_KEY_get0_group key) (nat (EC_KEY_get0_private_key key))
             (ec_G (EC_KEY_get0_group key))"

section \<open>Concrete instances used to exercise the definitions\<close>

text \<open>A small hash descriptor with two-octet digests, for evaluating the functions.\<close>

definition toy_md :: EVP_MD where
  "toy_md = \<lparr>EVP_MD_size = 2,
      EVP_Digest = (\<lambda>x. Some [foldl (\<lambda>a b. 3 * a + b + 1) 7 x, of_nat (length x) + 5])\<rparr>"


text \<open>A random source for the encoder.\<close>

definition toy_rnd :: "nat \<Rightarrow> octet" where "toy_rnd i = of_nat (7 * i + 9)"

text \<open>
  A small curve for evaluating the SM2 functions: \<open>y\<^sup>2 = x\<^sup>3 + 2 x + 2\<close> over the field of
  17 elements, with the base point \<open>(5, 1)\<close> of prime order 19, and the key pair
  \<open>dA = 7\<close>, \<open>PA = [7]G = (0, 6)\<close>.
\<close>

definition toy_group :: EC_GROUP where
  "toy_group = \<lparr>ec_p = 17, ec_a = 2, ec_b = 2, ec_G = Affine 5 1, ec_order = 19\<rparr>"

definition toy_key :: EC_KEY where
  "toy_key = \<lparr>EC_KEY_get0_group = toy_group, EC_KEY_get0_private_key = 7,
               EC_KEY_get0_public_key = Affine 0 6\<rparr>"

text \<open>A \<open>ZA\<close> function: the digest of the user identity and the public key coordinates.\<close>

definition toy_za :: "EVP_MD \<Rightarrow> octets \<Rightarrow> EC_KEY \<Rightarrow> octets option" where
  "toy_za digest user_id key =
     (case EC_KEY_get0_public_key key of
        Infinity \<Rightarrow> None
      | Affine x y \<Rightarrow> EVP_Digest digest (user_id @ [word_of_int x, word_of_int y]))"

section \<open>MGF1 computes the specified mask\<close>

lemma and_255_int: "(x::int) AND 255 = x mod 256"
proof -
  have "x AND mask 8 = take_bit 8 x" by (simp only: take_bit_eq_mask)
  then show ?thesis by (simp add: take_bit_eq_mod mask_eq_exp_minus_1)
qed

lemma octet_of_int_mod: "(word_of_int (x mod 256) :: octet) = word_of_int x"
  by (simp add: word_of_int_eq_iff take_bit_eq_mod)

lemma octet_and_255: "(w :: octet) AND 255 = w"
proof -
  have "w AND mask 8 = take_bit 8 w" by (simp only: take_bit_eq_mask)
  moreover have "take_bit 8 w = w" by (rule take_bit_word_eq_self) simp
  ultimately show ?thesis by (simp add: mask_eq_exp_minus_1)
qed

lemma mgf1_cnt_I2OSP: "mgf1_cnt (int j) = I2OSP j 4"
proof -
  have u: "[0..<4] = [0,1,2,3::nat]" by (simp add: upt_rec)
  have n: "(word_of_nat n :: octet) = word_of_int (int n)" for n by simp
  show ?thesis
    unfolding mgf1_cnt_def I2OSP_def u and_255_int drop_bit_eq_div octet_and_255 n
    by (simp add: octet_of_int_mod zdiv_int zmod_int)
qed

lemma hash_ok_digest:
  "hash_ok md \<Longrightarrow> EVP_Digest md x = Some (hash_of md x)"
  by (metis hash_ok_def hash_of_def option.sel)

lemma hash_ok_length:
  "hash_ok md \<Longrightarrow> int (length (hash_of md x)) = EVP_MD_size md"
  by (metis hash_ok_def hash_of_def option.sel)

lemma take_append_block:
  assumes "int (length d) = h"
  shows "outlen + h \<le> len \<Longrightarrow>
           take (nat (len - outlen)) (d @ rest) = d @ take (nat (len - (outlen + h))) rest"
    and "\<not> outlen + h \<le> len \<Longrightarrow>
           take (nat (len - outlen)) (d @ rest) = take (nat (len - outlen)) d"
proof -
  assume le: "outlen + h \<le> len"
  have "nat (len - outlen) - length d = nat (len - (outlen + h))"
    using assms le by linarith
  moreover have "length d \<le> nat (len - outlen)" using assms le by linarith
  ultimately show "take (nat (len - outlen)) (d @ rest) = d @ take (nat (len - (outlen + h))) rest"
    by simp
next
  assume "\<not> outlen + h \<le> len"
  then have "nat (len - outlen) \<le> length d" using assms by linarith
  then show "take (nat (len - outlen)) (d @ rest) = take (nat (len - outlen)) d" by simp
qed

lemma PKCS1_MGF1_loop_blocks:
  assumes ok: "hash_ok dgst" and pos: "0 < EVP_MD_size dgst"
  shows "len - outlen \<le> int m * EVP_MD_size dgst \<Longrightarrow>
     PKCS1_MGF1_loop dgst seed len (int i) outlen msk =
       Some (Inr (msk @ take (nat (len - outlen))
          (concat (map (\<lambda>j. hash_of dgst (seed @ I2OSP j 4)) [i..<i + m]))))"
proof (induction m arbitrary: i outlen msk)
  case 0
  then have "\<not> outlen < len" by simp
  then show ?case by (subst PKCS1_MGF1_loop.simps) simp
next
  case (Suc m)
  define h where "h = EVP_MD_size dgst"
  define d where "d = hash_of dgst (seed @ I2OSP i 4)"
  define rest where "rest = concat (map (\<lambda>j. hash_of dgst (seed @ I2OSP j 4)) [Suc i..<Suc i + m])"
  have blocks: "concat (map (\<lambda>j. hash_of dgst (seed @ I2OSP j 4)) [i..<i + Suc m]) = d @ rest"
  proof -
    have "[i..<i + Suc m] = i # [Suc i..<Suc i + m]" by (simp add: upt_conv_Cons)
    then show ?thesis by (simp add: d_def rest_def)
  qed
  have dg: "EVP_Digest dgst (seed @ mgf1_cnt (int i)) = Some d"
    by (simp add: mgf1_cnt_I2OSP hash_ok_digest [OF ok] d_def)
  have ld: "int (length d) = h" unfolding d_def h_def by (rule hash_ok_length [OF ok])
  have nxt: "int i + 1 = int (Suc i)" by simp
  show ?case
  proof (cases "outlen < len")
    case False
    then show ?thesis by (subst PKCS1_MGF1_loop.simps) simp
  next
    case lt: True
    show ?thesis
    proof (cases "outlen + h \<le> len")
      case True
      have "len - (outlen + h) \<le> int m * EVP_MD_size dgst"
        using Suc.prems by (simp add: algebra_simps h_def)
      from Suc.IH [OF this, of "Suc i" "msk @ d"]
      have "PKCS1_MGF1_loop dgst seed len (int (Suc i)) (outlen + h) (msk @ d) =
              Some (Inr ((msk @ d) @ take (nat (len - (outlen + h))) rest))"
        by (simp only: rest_def)
      then show ?thesis
        using lt True
        by (subst PKCS1_MGF1_loop.simps)
           (simp only: dg blocks nxt if_True option.case append_assoc
              take_append_block(1) [OF ld True] h_def [symmetric])
    next
      case False
      have "len - len \<le> int m * EVP_MD_size dgst" using pos by simp
      from Suc.IH [OF this, of "Suc i" "msk @ take (nat (len - outlen)) d"]
      have "PKCS1_MGF1_loop dgst seed len (int (Suc i)) len (msk @ take (nat (len - outlen)) d) =
              Some (Inr (msk @ take (nat (len - outlen)) d))" by simp
      then show ?thesis
        using lt False
        by (subst PKCS1_MGF1_loop.simps)
           (simp only: dg blocks nxt if_True if_False option.case
              take_append_block(2) [OF ld False] h_def [symmetric])
    qed
  qed
qed

lemma hash_ok_toy_md: "hash_ok toy_md" by (simp add: hash_ok_def toy_md_def)

lemma ceil_div_covers: "0 < (h::nat) \<Longrightarrow> n \<le> ((n + h - 1) div h) * h"
proof -
  assume h: "0 < h"
  have "n + h - 1 = (n + h - 1) div h * h + (n + h - 1) mod h" by simp
  moreover have "(n + h - 1) mod h \<le> h - 1" using h by (simp add: less_Suc_eq_le [symmetric])
  ultimately show ?thesis using h by linarith
qed

lemma length_concat_blocks:
  "(\<And>x. length (H x) = h) \<Longrightarrow> length (concat (map (\<lambda>i. H (f i)) xs)) = length xs * h"
  by (induction xs) simp_all

lemma length_mgf1_spec:
  assumes "\<And>x. length (H x) = hLen" and "0 < hLen"
  shows "length (mgf1_spec H hLen seed len) = len"
proof -
  have "length (concat (map (\<lambda>i. H (seed @ I2OSP i 4)) [0..<(len + hLen - 1) div hLen]))
          = (len + hLen - 1) div hLen * hLen"
    using length_concat_blocks [of H hLen "\<lambda>i. seed @ I2OSP i 4"] assms(1) by simp
  then show ?thesis
    using ceil_div_covers [OF assms(2), of len] by (simp add: mgf1_spec_def)
qed

lemma PKCS1_MGF1_blocks:
  assumes "hash_ok dgst" and "0 < EVP_MD_size dgst" and "0 \<le> len"
      and "nat len \<le> m * nat (EVP_MD_size dgst)"
  shows "PKCS1_MGF1 len seed dgst =
           Some (Inr (take (nat len)
             (concat (map (\<lambda>j. hash_of dgst (seed @ I2OSP j 4)) [0..<m]))))"
proof -
  have "int (nat len) \<le> int (m * nat (EVP_MD_size dgst))" using assms(4) by (rule iffD2 [OF of_nat_le_iff])
  then have "len - 0 \<le> int m * EVP_MD_size dgst" using assms(2,3) by simp
  from PKCS1_MGF1_loop_blocks [OF assms(1,2) this, of seed 0 "[]"]
  show ?thesis using assms(2) by (simp add: PKCS1_MGF1_def)
qed

text \<open>
  Claim C9.  For every seed, every requested length \<open>len \<ge> 0\<close> and every well-behaved
  hash with a positive digest size, \<open>PKCS1_MGF1\<close> returns exactly \<open>len\<close> octets: the
  concatenation of \<open>hash(seed || I2OSP(i, 4))\<close> for \<open>i = 0, 1, ...\<close>, truncated to \<open>len\<close>
  octets.  The result is a function of \<open>(seed, len, hash)\<close> alone, so equal inputs give
  equal outputs.
\<close>

theorem PKCS1_MGF1_refines_spec:
  assumes "hash_ok dgst" and "0 < EVP_MD_size dgst" and "0 \<le> len"
  shows "PKCS1_MGF1 len seed dgst =
           Some (Inr (mgf1_spec (hash_of dgst) (nat (EVP_MD_size dgst)) seed (nat len)))
         \<and> length (mgf1_spec (hash_of dgst) (nat (EVP_MD_size dgst)) seed (nat len)) = nat len"
proof -
  define h where "h = nat (EVP_MD_size dgst)"
  define m where "m = (nat len + h - 1) div h"
  have h: "0 < h" "int h = EVP_MD_size dgst" using assms(2) by (simp_all add: h_def)
  have "nat len \<le> m * h" unfolding m_def by (rule ceil_div_covers [OF h(1)])
  from PKCS1_MGF1_blocks [OF assms this [unfolded h_def], of seed]
  have "PKCS1_MGF1 len seed dgst = Some (Inr (mgf1_spec (hash_of dgst) h seed (nat len)))"
    by (simp add: mgf1_spec_def m_def)
  moreover have "length (hash_of dgst x) = h" for x
    using hash_ok_length [OF assms(1), of x] h(2) by linarith
  then have "length (mgf1_spec (hash_of dgst) h seed (nat len)) = nat len"
    using h(1) by (intro length_mgf1_spec)
  ultimately show ?thesis by (simp add: h_def)
qed

theorem PKCS1_MGF1_refines_spec_witness:
  "hash_ok toy_md \<and> 0 < EVP_MD_size toy_md \<and> (0::int) \<le> 5 \<and>
   PKCS1_MGF1 5 [1, 2] toy_md = Some (Inr [240, 11, 241, 11, 242]) \<and>
   mgf1_spec (hash_of toy_md) 2 [1, 2] 5 = [240, 11, 241, 11, 242]"
proof -
  have a: "hash_ok toy_md" by (rule hash_ok_toy_md)
  have b: "0 < EVP_MD_size toy_md" by (simp add: toy_md_def)
  have c: "(0::int) \<le> 5" by simp
  have d: "PKCS1_MGF1 5 [1, 2] toy_md = Some (Inr [240, 11, 241, 11, 242])"
    by (simp add: PKCS1_MGF1_def PKCS1_MGF1_loop.simps toy_md_def mgf1_cnt_def)
  from PKCS1_MGF1_refines_spec [OF a b c, of "[1, 2]"] d
  have "mgf1_spec (hash_of toy_md) (nat (EVP_MD_size toy_md)) [1, 2] (nat 5) = [240, 11, 241, 11, 242]"
    by simp
  then show ?thesis using a b d by (simp add: toy_md_def)
qed

lemma OS2IP_I2OSP_4: "i < 2 ^ 32 \<Longrightarrow> OS2IP (I2OSP i 4) = i"
proof -
  assume less: "i < 2 ^ 32"
  have u: "[0..<4] = [0,1,2,3::nat]" by (simp add: upt_rec)
  have un: "unat (word_of_nat (n mod 256) :: octet) = n mod 256" for n
    by (simp add: unat_of_nat)
  have top: "i div 16777216 mod 256 = i div 16777216" using less by simp
  have a: "i = i div 256 * 256 + i mod 256" by simp
  have b: "i div 256 = i div 65536 * 256 + i div 256 mod 256"
    using div_mult_mod_eq [of "i div 256" 256] by (simp add: div_mult2_eq [symmetric])
  have c: "i div 65536 = i div 16777216 * 256 + i div 65536 mod 256"
    using div_mult_mod_eq [of "i div 65536" 256] by (simp add: div_mult2_eq [symmetric])
  have "OS2IP (I2OSP i 4) =
      ((i div 16777216 mod 256 * 256 + i div 65536 mod 256) * 256 + i div 256 mod 256) * 256 + i mod 256"
    unfolding I2OSP_def OS2IP_def u by (simp add: un del: mod_div_trivial)
  also have "\<dots> = i" using a b c top by presburger
  finally show ?thesis .
qed

section \<open>The decoder and the encoder, step by step\<close>

lemma length_xor_octets [simp]: "length (xor_octets a b) = min (length a) (length b)"
  by (simp add: xor_octets_def)

lemma xor_octets_commute: "xor_octets a b = xor_octets b a"
proof -
  have "map2 (XOR) a b = map2 (XOR) b a"
    by (induction a b rule: list_induct2') (simp_all add: xor.commute)
  then show ?thesis by (simp add: xor_octets_def) 
qed


lemma PKCS1_MGF1_MGF:
  assumes "hash_ok dgst" and "0 < EVP_MD_size dgst" and "0 \<le> len"
  shows "PKCS1_MGF1 len seed dgst = Some (Inr (MGF dgst seed (nat len)))"
    and "length (MGF dgst seed (nat len)) = nat len"
proof -
  define h where "h = nat (EVP_MD_size dgst)"
  have h: "0 < h" "int h = EVP_MD_size dgst" using assms(2) by (simp_all add: h_def)
  have "nat len \<le> (nat len + h - 1) div h * h" by (rule ceil_div_covers [OF h(1)])
  from PKCS1_MGF1_blocks [OF assms this [unfolded h_def], of seed]
  show "PKCS1_MGF1 len seed dgst = Some (Inr (MGF dgst seed (nat len)))"
    by (simp add: MGF_def mgf1_spec_def h_def)
  have "length (hash_of dgst x) = h" for x
    using hash_ok_length [OF assms(1), of x] h(2) by linarith
  then show "length (MGF dgst seed (nat len)) = nat len"
    unfolding MGF_def h_def [symmetric] using h(1) by (intro length_mgf1_spec)
qed

lemma oaep_scan_takeWhile:
  "i \<le> n \<Longrightarrow> n = length db \<Longrightarrow>
     oaep_scan db i n = i + length (takeWhile (\<lambda>b. b = 0) (drop i db))"
proof (induction db i n rule: oaep_scan.induct)
  case (1 db i dblen)
  show ?case
  proof (cases "i < dblen \<and> db ! i = 0")
    case True
    then have "drop i db = 0 # drop (Suc i) db" using 1(3) by (metis Cons_nth_drop_Suc)
    then show ?thesis using True 1 by simp
  next
    case False
    then have "i = dblen \<or> (i < dblen \<and> db ! i \<noteq> 0)" using 1(2) by auto
    then show ?thesis
    proof
      assume "i = dblen" then show ?thesis using 1(3) by simp
    next
      assume a: "i < dblen \<and> db ! i \<noteq> 0"
      then have "drop i db = db ! i # drop (Suc i) db" using 1(3) by (metis Cons_nth_drop_Suc)
      then show ?thesis using a False by simp
    qed
  qed
qed

lemma oaep_check_steps:
  assumes md: "hash_ok (oaep_md sha1 md0)"
      and mgf: "hash_ok (oaep_mgf1md sha1 md0 mgf1md0)" "0 < EVP_MD_size (oaep_mgf1md sha1 md0 mgf1md0)"
      and num: "2 * EVP_MD_size (oaep_md sha1 md0) + 1 \<le> num - 1"
  shows "RSA_padding_check_PKCS1_OAEP_mgf1 sha1 True tobuf frm num label md0 mgf1md0 =
     Some (if oaep_padding_bad (oaep_md sha1 md0) (oaep_mgf1md sha1 md0 mgf1md0) num frm label
           then (Inl RSA_R_OAEP_DECODING_ERROR, tobuf)
           else let M = tl (oaep_after_PS (oaep_md sha1 md0)
                          (oaep_DB (oaep_md sha1 md0) (oaep_mgf1md sha1 md0 mgf1md0) num frm))
                in if length tobuf < length M then (Inl RSA_R_DATA_TOO_LARGE, tobuf)
                   else (Inr (int (length M)), M @ drop (length M) tobuf))"
proof -
  define md where "md = oaep_md sha1 md0"
  define mgf where "mgf = oaep_mgf1md sha1 md0 mgf1md0"
  define h where "h = nat (EVP_MD_size md)"
  define n where "n = nat (num - 1)"
  have h: "EVP_MD_size md = int h" using md by (simp add: h_def md_def hash_ok_def)
  have n: "num - 1 = int n" "2 * h + 1 \<le> n" using num h by (simp_all add: n_def md_def)
  have ph: "EVP_Digest md label = Some (hash_of md label)" "length (hash_of md label) = h"
    using hash_ok_digest [of md] hash_ok_length [of md label] md h by (simp_all add: md_def)
  note mgf1 = PKCS1_MGF1_MGF [OF mgf [folded mgf_def]]
  show ?thesis
  proof (cases "num - 1 < int (length frm)")
    case bad: True
    define pf where "pf = take n frm"
    have lpf: "length pf = n" using bad n by (simp add: pf_def)
    have 1: "PKCS1_MGF1 (int h) (drop h pf) mgf = Some (Inr (MGF mgf (drop h pf) h))"
      using mgf1(1) [of "int h" "drop h pf"] by simp
    have 2: "PKCS1_MGF1 (int n - int h) sd mgf = Some (Inr (MGF mgf sd (n - h)))" for sd
      using mgf1(1) [of "int n - int h" sd] n by (simp add: nat_diff_distrib')
    show ?thesis
      using bad
      unfolding RSA_padding_check_PKCS1_OAEP_mgf1_def oaep_check_db_def
        md_def [symmetric] mgf_def [symmetric] oaep_padding_bad_def
      by (simp add: Let_def h n pf_def [symmetric] 1 2 ph)
  next
    case ok: False
    then have lf: "length frm \<le> n" using n by simp
    define em where "em = oaep_EM num frm"
    have em: "em = replicate (n - length frm) 0 @ frm" "length em = n"
      using lf by (simp_all add: em_def oaep_EM_def n_def)
    define DB where "DB = oaep_DB md mgf num frm"
    have 1: "PKCS1_MGF1 (int h) (drop h em) mgf = Some (Inr (MGF mgf (drop h em) h))"
      using mgf1(1) [of "int h" "drop h em"] by simp
    have 2: "PKCS1_MGF1 (int n - int h) sd mgf = Some (Inr (MGF mgf sd (n - h)))" for sd
      using mgf1(1) [of "int n - int h" sd] n by (simp add: nat_diff_distrib')
    have l1: "length (MGF mgf sd h) = h" for sd using mgf1(2) [of "int h" sd] by simp
    have l2: "length (MGF mgf sd (n - h)) = n - h" for sd
      using mgf1(2) [of "int n - int h" sd] n by (simp add: nat_diff_distrib')
    have db: "xor_octets (MGF mgf (xor_octets (MGF mgf (drop h em) h) (take h em)) (n - h)) (drop h em) = DB"
      unfolding DB_def oaep_DB_def oaep_unmask_def Let_def em_def [symmetric] h_def [symmetric]
      by (simp add: xor_octets_commute em(2))
    have ldb: "length DB = n - h"
      unfolding db [symmetric] by (simp add: l2 em(2))
    define i where "i = oaep_scan DB h (n - h)"
    define Z where "Z = takeWhile (\<lambda>b. b = 0) (drop h DB)"
    define R where "R = oaep_after_PS md DB"
    have ZR: "drop h DB = Z @ R"
      by (simp add: Z_def R_def oaep_after_PS_def h_def)
    have i: "i = h + length Z"
      unfolding i_def Z_def using n(2) ldb by (intro oaep_scan_takeWhile) simp_all
    have lenZR: "h + length Z + length R = n - h"
      using arg_cong [OF ZR, of length] ldb n(2) by simp
    have hn: "h \<le> n" "int n - int h = int (n - h)" using n(2) by simp_all
    have iend: "int i = int n - int h \<longleftrightarrow> R = []"
    proof -
      have "i = n - h \<longleftrightarrow> length R = 0" using i lenZR hn(1) by linarith
      then have "i = n - h \<longleftrightarrow> R = []" by simp
      then show ?thesis unfolding hn(2) by simp
    qed
    have drp: "drop i DB = R"
    proof -
      have "drop i DB = drop (length Z) (drop h DB)" by (simp add: i add.commute)
      then show ?thesis by (simp add: ZR)
    qed
    have nth: "DB ! i = hd R" if "R \<noteq> []"
    proof -
      have "i < length DB" using that i lenZR ldb by (cases R) simp_all
      then have "drop i DB = DB ! i # drop (Suc i) DB" by (metis Cons_nth_drop_Suc)
      then show ?thesis using drp by (metis list.sel(1))
    qed
    have tl: "drop (Suc i) DB = tl R" using drp by (metis drop_Suc tl_drop)
    have ltl: "R \<noteq> [] \<Longrightarrow> int n - int h - (1 + int i) = int (length (tl R))"
      using i lenZR hn by (cases R) simp_all
    have lh: "take h DB = hash_of md label \<longleftrightarrow> take h DB = take h (hash_of md label)"
      using ph(2) by simp
    have c1: "(int n < 2 * int h + 1) = False" using n(2) by simp
    have c2: "(int n - int (length frm) < 0) = False" using lf by simp
    have pfeq: "replicate (nat (int n - int (length frm))) 0 @ take (length frm) frm = em"
      by (simp add: em(1) nat_diff_distrib')
    have nh: "nat (int n - int h) = n - h" by (simp add: nat_diff_distrib')
    have res: "RSA_padding_check_PKCS1_OAEP_mgf1 sha1 True tobuf frm num label md0 mgf1md0 =
      Some (if take h DB \<noteq> take h (hash_of md label) \<or> False then (Inl RSA_R_OAEP_DECODING_ERROR, tobuf)
       else if int i = int n - int h \<or> DB ! i \<noteq> 1 then (Inl RSA_R_OAEP_DECODING_ERROR, tobuf)
       else if int (length tobuf) < int n - int h - int (Suc i) then (Inl RSA_R_DATA_TOO_LARGE, tobuf)
       else (Inr (int n - int h - int (Suc i)),
              take (nat (int n - int h - int (Suc i))) (drop (Suc i) DB)
                @ drop (nat (int n - int h - int (Suc i))) tobuf))"
      unfolding RSA_padding_check_PKCS1_OAEP_mgf1_def oaep_check_db_def Let_def
        md_def [symmetric] mgf_def [symmetric] h n(1)
      by (simp only: c1 c2 if_False not_True_eq_False not_False_eq_True simp_thms pfeq nat_int 1 2
            option.case sum.case ph(1) db nh i_def [symmetric])
    show ?thesis
    proof (cases "R = []")
      case True
      then show ?thesis
        unfolding res oaep_padding_bad_def md_def [symmetric] mgf_def [symmetric]
          DB_def [symmetric] R_def [symmetric] h_def [symmetric]
        using iend by simp
    next
      case False
      show ?thesis
        unfolding res oaep_padding_bad_def md_def [symmetric] mgf_def [symmetric]
          DB_def [symmetric] R_def [symmetric] h_def [symmetric]
        using False ok iend nth [OF False] tl ltl [OF False] lh
        by (simp add: Let_def)
    qed
  qed
qed

lemma oaep_add_steps:
  assumes md: "hash_ok (oaep_md sha1 md0)"
      and mgf: "hash_ok (oaep_mgf1md sha1 md0 mgf1md0)" "0 < EVP_MD_size (oaep_mgf1md sha1 md0 mgf1md0)"
      and fits: "int (length msg) \<le> tlen - 2 * EVP_MD_size (oaep_md sha1 md0) - 2"
  shows "RSA_padding_add_PKCS1_OAEP_mgf1 sha1 True rnd tlen msg label md0 mgf1md0 =
     Some (Inr (0 # oaep_mask (oaep_mgf1md sha1 md0 mgf1md0)
                      (arc4random_buf rnd (nat (EVP_MD_size (oaep_md sha1 md0))))
                      (oaep_pad_DB (oaep_md sha1 md0) tlen label msg)))"
    and "length (oaep_pad_DB (oaep_md sha1 md0) tlen label msg)
           = nat (tlen - 1 - EVP_MD_size (oaep_md sha1 md0))"
proof -
  define md where "md = oaep_md sha1 md0"
  define mgf where "mgf = oaep_mgf1md sha1 md0 mgf1md0"
  define h where "h = nat (EVP_MD_size md)"
  define n where "n = nat (tlen - 1)"
  define DB where "DB = oaep_pad_DB md tlen label msg"
  define seed where "seed = arc4random_buf rnd h"
  have h: "EVP_MD_size md = int h" using md by (simp add: h_def md_def hash_ok_def)
  have n: "tlen - 1 = int n" "2 * h + 1 + length msg \<le> n"
    using fits h by (simp_all add: n_def md_def)
  have ph: "EVP_Digest md label = Some (hash_of md label)" "length (hash_of md label) = h"
    using hash_ok_digest [of md] hash_ok_length [of md label] md h by (simp_all add: md_def)
  note mgf1 = PKCS1_MGF1_MGF [OF mgf [folded mgf_def]]
  have c1: "(int n - 2 * int h - 1 < int (length msg)) = False" using n(2) by simp
  have c2: "(int n < 2 * int h + 1) = False" using n(2) by simp
  have dbeq: "hash_of md label @ replicate (nat (int n - int (length msg) - 2 * int h - 1)) 0 @ [1] @ msg = DB"
    unfolding DB_def oaep_pad_DB_def h n(1) [symmetric] by (simp add: algebra_simps)
  have ldb: "length DB = n - h"
    unfolding dbeq [symmetric] using n(2) ph(2) by (simp add: nat_diff_distrib')
  have lseed: "length seed = h" by (simp add: seed_def arc4random_buf_def)
  have 1: "PKCS1_MGF1 (int n - int h) sd mgf = Some (Inr (MGF mgf sd (length DB)))" for sd
    using mgf1(1) [of "int n - int h" sd] n ldb by (simp add: nat_diff_distrib')
  have 2: "PKCS1_MGF1 (int h) sd mgf = Some (Inr (MGF mgf sd (length seed)))" for sd
    using mgf1(1) [of "int h" sd] lseed by simp
  have "RSA_padding_add_PKCS1_OAEP_mgf1 sha1 True rnd tlen msg label md0 mgf1md0 =
          Some (Inr (0 # oaep_mask mgf seed DB))"
    unfolding RSA_padding_add_PKCS1_OAEP_mgf1_def Let_def md_def [symmetric] mgf_def [symmetric]
      h n(1) oaep_mask_def
    by (simp only: c1 c2 if_False not_True_eq_False not_False_eq_True simp_thms nat_int 1 2
          option.case sum.case ph(1) dbeq seed_def [symmetric])
  then show "RSA_padding_add_PKCS1_OAEP_mgf1 sha1 True rnd tlen msg label md0 mgf1md0 =
     Some (Inr (0 # oaep_mask (oaep_mgf1md sha1 md0 mgf1md0)
                      (arc4random_buf rnd (nat (EVP_MD_size (oaep_md sha1 md0))))
                      (oaep_pad_DB (oaep_md sha1 md0) tlen label msg)))"
    by (simp only: md_def mgf_def seed_def DB_def h_def)
  show "length (oaep_pad_DB (oaep_md sha1 md0) tlen label msg)
           = nat (tlen - 1 - EVP_MD_size (oaep_md sha1 md0))"
    using ldb n(1) h by (simp add: DB_def md_def nat_diff_distrib')
qed

lemma length_MGF:
  "hash_ok dgst \<Longrightarrow> 0 < EVP_MD_size dgst \<Longrightarrow> length (MGF dgst seed l) = l"
  using PKCS1_MGF1_MGF(2) [of dgst "int l" seed] by simp




section \<open>OAEP round trip\<close>



section \<open>Errors of the encoder\<close>

text \<open>
  What the encoder returns, with a well-behaved hash and a successful allocation: it
  fails with \<open>RSA_R_DATA_TOO_LARGE_FOR_KEY_SIZE\<close> exactly when the message length exceeds
  \<open>emLen - 2 * hLen - 2\<close>, it never fails with \<open>RSA_R_KEY_SIZE_TOO_SMALL\<close>, and when the
  message fits it succeeds and writes an \<open>emLen\<close>-octet block with leading octet \<open>0x00\<close>.
\<close>

lemma oaep_add_result:
  assumes "hash_ok (oaep_md sha1 md0)"
      and "hash_ok (oaep_mgf1md sha1 md0 mgf1md0)"
      and "0 < EVP_MD_size (oaep_mgf1md sha1 md0 mgf1md0)"
  shows "(RSA_padding_add_PKCS1_OAEP_mgf1 sha1 True rnd tlen msg label md0 mgf1md0
            = Some (Inl RSA_R_DATA_TOO_LARGE_FOR_KEY_SIZE)
          \<longleftrightarrow> tlen - 2 * EVP_MD_size (oaep_md sha1 md0) - 2 < int (length msg))
       \<and> RSA_padding_add_PKCS1_OAEP_mgf1 sha1 True rnd tlen msg label md0 mgf1md0
            \<noteq> Some (Inl RSA_R_KEY_SIZE_TOO_SMALL)
       \<and> (int (length msg) \<le> tlen - 2 * EVP_MD_size (oaep_md sha1 md0) - 2 \<longrightarrow>
            (\<exists>em. RSA_padding_add_PKCS1_OAEP_mgf1 sha1 True rnd tlen msg label md0 mgf1md0
                     = Some (Inr em) \<and> int (length em) = tlen \<and> hd em = 0))"
proof -
  let ?enc = "RSA_padding_add_PKCS1_OAEP_mgf1 sha1 True rnd tlen msg label md0 mgf1md0"
  let ?h = "EVP_MD_size (oaep_md sha1 md0)"
  have big: "?enc = Some (Inl RSA_R_DATA_TOO_LARGE_FOR_KEY_SIZE)"
    if "tlen - 2 * ?h - 2 < int (length msg)"
    using that by (simp add: RSA_padding_add_PKCS1_OAEP_mgf1_def Let_def)
  have fit: "\<exists>em. ?enc = Some (Inr em) \<and> int (length em) = tlen \<and> hd em = 0"
    if le: "int (length msg) \<le> tlen - 2 * ?h - 2"
  proof -
    have h: "0 \<le> ?h" using assms(1) by (simp add: hash_ok_def)
    have "length (oaep_pad_DB (oaep_md sha1 md0) tlen label msg) = nat (tlen - 1 - ?h)"
      by (rule oaep_add_steps(2) [OF assms le])
    then have "int (length (0 # oaep_mask (oaep_mgf1md sha1 md0 mgf1md0)
                 (arc4random_buf rnd (nat ?h)) (oaep_pad_DB (oaep_md sha1 md0) tlen label msg))) = tlen"
      using le h by (simp add: oaep_mask_def Let_def length_MGF [OF assms(2,3)] arc4random_buf_def)
    then show ?thesis using oaep_add_steps(1) [OF assms le, of rnd label] by simp
  qed
  have cases: "tlen - 2 * ?h - 2 < int (length msg) \<or> int (length msg) \<le> tlen - 2 * ?h - 2"
    by linarith
  have 1: "tlen - 2 * ?h - 2 < int (length msg)" if "?enc = Some (Inl RSA_R_DATA_TOO_LARGE_FOR_KEY_SIZE)"
    using cases fit that by auto
  have 2: "?enc \<noteq> Some (Inl RSA_R_KEY_SIZE_TOO_SMALL)"
    using cases big fit by auto
  show ?thesis using big fit 1 2 by blast
qed

text \<open>
  Claim C8 asks for \<open>RSA_R_KEY_SIZE_TOO_SMALL\<close> exactly when \<open>emLen < 2 * hLen + 2\<close>.  The
  code has the check for it, after the check of the message length, which returns first
  for every block that is too small.  With \<open>emLen = 3\<close>, \<open>hLen = 2\<close> and the empty message
  the block is too small for the hash, and the error is
  \<open>RSA_R_DATA_TOO_LARGE_FOR_KEY_SIZE\<close>, not \<open>RSA_R_KEY_SIZE_TOO_SMALL\<close>.
\<close>

theorem oaep_add_key_size_too_small_shadowed:
  "hash_ok toy_md
   \<and> 3 < 2 * EVP_MD_size toy_md + 2
   \<and> RSA_padding_add_PKCS1_OAEP_mgf1 toy_md True toy_rnd 3 [] [] None None
        \<noteq> Some (Inl RSA_R_KEY_SIZE_TOO_SMALL)
   \<and> RSA_padding_add_PKCS1_OAEP_mgf1 toy_md True toy_rnd 3 [] [] None None
        = Some (Inl RSA_R_DATA_TOO_LARGE_FOR_KEY_SIZE)"
  using hash_ok_toy_md
  by (simp add: RSA_padding_add_PKCS1_OAEP_mgf1_def oaep_md_def oaep_mgf1md_def toy_md_def)

section \<open>Errors of the decoder\<close>

text \<open>
  Claim C4.  With a well-behaved hash and a successful allocation: whenever a padding
  check fails (the modulus is too short for the hash, the caller's length exceeds the
  block, the label hash differs, the zero scan reaches the end of \<open>DB\<close>, or the first
  nonzero octet is not \<open>0x01\<close>), decoding fails with the one error
  \<open>RSA_R_OAEP_DECODING_ERROR\<close>; it fails with \<open>RSA_R_DATA_TOO_LARGE\<close> exactly when all
  padding checks pass and the recovered plaintext is longer than the output buffer; and
  these are the only two errors.
\<close>

theorem oaep_check_error_kinds:
  assumes "hash_ok (oaep_md sha1 md0)"
      and "hash_ok (oaep_mgf1md sha1 md0 mgf1md0)"
      and "0 < EVP_MD_size (oaep_mgf1md sha1 md0 mgf1md0)"
  shows "(num - 1 < 2 * EVP_MD_size (oaep_md sha1 md0) + 1
            \<or> oaep_padding_bad (oaep_md sha1 md0) (oaep_mgf1md sha1 md0 mgf1md0) num frm label
          \<longrightarrow> RSA_padding_check_PKCS1_OAEP_mgf1 sha1 True tobuf frm num label md0 mgf1md0
                = Some (Inl RSA_R_OAEP_DECODING_ERROR, tobuf))
       \<and> (RSA_padding_check_PKCS1_OAEP_mgf1 sha1 True tobuf frm num label md0 mgf1md0
            = Some (Inl RSA_R_DATA_TOO_LARGE, tobuf)
          \<longleftrightarrow> \<not> num - 1 < 2 * EVP_MD_size (oaep_md sha1 md0) + 1
              \<and> \<not> oaep_padding_bad (oaep_md sha1 md0) (oaep_mgf1md sha1 md0 mgf1md0) num frm label
              \<and> length tobuf
                  < length (oaep_recovered (oaep_md sha1 md0) (oaep_mgf1md sha1 md0 mgf1md0) num frm))
       \<and> (\<forall>err tobuf'. RSA_padding_check_PKCS1_OAEP_mgf1 sha1 True tobuf frm num label md0 mgf1md0
                   = Some (Inl err, tobuf')
                 \<longrightarrow> err = RSA_R_OAEP_DECODING_ERROR \<or> err = RSA_R_DATA_TOO_LARGE)"
proof (cases "num - 1 < 2 * EVP_MD_size (oaep_md sha1 md0) + 1")
  case True
  then have "RSA_padding_check_PKCS1_OAEP_mgf1 sha1 True tobuf frm num label md0 mgf1md0
                = Some (Inl RSA_R_OAEP_DECODING_ERROR, tobuf)"
    by (simp add: RSA_padding_check_PKCS1_OAEP_mgf1_def Let_def)
  then show ?thesis using True by simp
next
  case False
  then have "2 * EVP_MD_size (oaep_md sha1 md0) + 1 \<le> num - 1" by simp
  note steps = oaep_check_steps [OF assms this, of tobuf frm label]
  show ?thesis
    unfolding steps oaep_recovered_def using False by (simp add: Let_def)
qed

theorem oaep_check_error_kinds_witness:
  "hash_ok toy_md \<and> 0 < EVP_MD_size toy_md
   \<and> oaep_padding_bad toy_md toy_md 8 [1, 2, 3, 4, 5, 6, 7, 8] []
   \<and> RSA_padding_check_PKCS1_OAEP_mgf1 toy_md True [9, 9, 9] [1, 2, 3, 4, 5, 6, 7, 8] 8 []
        None None = Some (Inl RSA_R_OAEP_DECODING_ERROR, [9, 9, 9])
   \<and> RSA_padding_check_PKCS1_OAEP_mgf1 toy_md True [9] [102, 30, 241, 14, 246, 74, 186] 8 []
        None None = Some (Inl RSA_R_DATA_TOO_LARGE, [9])
   \<and> \<not> oaep_padding_bad toy_md toy_md 8 [102, 30, 241, 14, 246, 74, 186] []
   \<and> length [9 :: octet] < length (oaep_recovered toy_md toy_md 8 [102, 30, 241, 14, 246, 74, 186])"
proof -
  have a: "hash_ok (oaep_md toy_md None)" "hash_ok (oaep_mgf1md toy_md None None)"
    by (simp_all add: oaep_md_def oaep_mgf1md_def hash_ok_toy_md)
  have b: "0 < EVP_MD_size (oaep_mgf1md toy_md None None)"
    by (simp add: oaep_md_def oaep_mgf1md_def toy_md_def)
  have m: "oaep_md toy_md None = toy_md" "oaep_mgf1md toy_md None None = toy_md"
    by (simp_all add: oaep_md_def oaep_mgf1md_def)
  have bad: "oaep_padding_bad toy_md toy_md 8 [1, 2, 3, 4, 5, 6, 7, 8] []"
    by (simp add: oaep_padding_bad_def)
  from oaep_check_error_kinds [OF a b, of 8 "[1, 2, 3, 4, 5, 6, 7, 8]" "[]" "[9, 9, 9]"] bad
  have 1: "RSA_padding_check_PKCS1_OAEP_mgf1 toy_md True [9, 9, 9] [1, 2, 3, 4, 5, 6, 7, 8] 8 []
        None None = Some (Inl RSA_R_OAEP_DECODING_ERROR, [9, 9, 9])"
    unfolding m by blast
  have 2: "RSA_padding_check_PKCS1_OAEP_mgf1 toy_md True [9] [102, 30, 241, 14, 246, 74, 186] 8 []
        None None = Some (Inl RSA_R_DATA_TOO_LARGE, [9])"
    by code_simp
  from oaep_check_error_kinds [OF a b, of 8 "[102, 30, 241, 14, 246, 74, 186]" "[]" "[9]"] 2
  have 3: "\<not> oaep_padding_bad toy_md toy_md 8 [102, 30, 241, 14, 246, 74, 186] []
     \<and> length [9 :: octet] < length (oaep_recovered toy_md toy_md 8 [102, 30, 241, 14, 246, 74, 186])"
    unfolding m by blast
  show ?thesis using 1 2 3 bad hash_ok_toy_md by (simp add: toy_md_def)
qed

section \<open>The output buffer of the decoder\<close>

lemma oaep_check_db_failure:
  assumes "oaep_check_db tobuf db phash bad mdlen dblen = (Inl err, tobuf')"
  shows "tobuf' = tobuf"
proof -
  define i where "i = oaep_scan db (nat mdlen) (nat dblen)"
  define c1 where "c1 \<longleftrightarrow> take (nat mdlen) db \<noteq> take (nat mdlen) phash \<or> bad"
  define c2 where "c2 \<longleftrightarrow> int i = dblen \<or> db ! i \<noteq> 1"
  define c3 where "c3 \<longleftrightarrow> int (length tobuf) < dblen - int (Suc i)"
  have "oaep_check_db tobuf db phash bad mdlen dblen =
     (if c1 then (Inl RSA_R_OAEP_DECODING_ERROR, tobuf)
      else if c2 then (Inl RSA_R_OAEP_DECODING_ERROR, tobuf)
      else if c3 then (Inl RSA_R_DATA_TOO_LARGE, tobuf)
      else (Inr (dblen - int (Suc i)),
              take (nat (dblen - int (Suc i))) (drop (Suc i) db) @ drop (nat (dblen - int (Suc i))) tobuf))"
    unfolding oaep_check_db_def Let_def i_def c1_def c2_def c3_def ..
  with assms show ?thesis by (cases c1; cases c2; cases c3) simp_all
qed

lemma oaep_check_result_cases:
  "RSA_padding_check_PKCS1_OAEP_mgf1 sha1 mem tobuf frm num label md0 mgf1md0 = None
   \<or> (\<exists>err. RSA_padding_check_PKCS1_OAEP_mgf1 sha1 mem tobuf frm num label md0 mgf1md0
               = Some (Inl err, tobuf))
   \<or> (\<exists>db phash bad mdlen dblen.
         RSA_padding_check_PKCS1_OAEP_mgf1 sha1 mem tobuf frm num label md0 mgf1md0
               = Some (oaep_check_db tobuf db phash bad mdlen dblen))"
  unfolding RSA_padding_check_PKCS1_OAEP_mgf1_def Let_def
  by (simp split: option.split sum.split) blast

lemma oaep_check_success_pre:
  assumes "RSA_padding_check_PKCS1_OAEP_mgf1 sha1 mem tobuf frm num label md0 mgf1md0
             = Some (Inr mlen, tobuf')"
  shows "mem" and "2 * EVP_MD_size (oaep_md sha1 md0) + 1 \<le> num - 1"
proof -
  show num: "2 * EVP_MD_size (oaep_md sha1 md0) + 1 \<le> num - 1"
  proof (rule ccontr)
    assume "\<not> 2 * EVP_MD_size (oaep_md sha1 md0) + 1 \<le> num - 1"
    then have "RSA_padding_check_PKCS1_OAEP_mgf1 sha1 mem tobuf frm num label md0 mgf1md0
                 = Some (Inl RSA_R_OAEP_DECODING_ERROR, tobuf)"
      by (simp add: RSA_padding_check_PKCS1_OAEP_mgf1_def Let_def)
    with assms show False by simp
  qed
  show "mem"
  proof (rule ccontr)
    assume "\<not> mem"
    then have "RSA_padding_check_PKCS1_OAEP_mgf1 sha1 mem tobuf frm num label md0 mgf1md0
                 = Some (Inl ERR_R_MALLOC_FAILURE, tobuf)"
      using num by (simp add: RSA_padding_check_PKCS1_OAEP_mgf1_def Let_def)
    with assms show False by simp
  qed
qed

text \<open>
  Claim C10.  On every failing return of the decoder (padding failure, output buffer too
  small, failed allocation, failed digest or mask generation) the output buffer is
  unchanged.  On success, with a well-behaved hash, exactly the recovered plaintext is
  written: its \<open>mlen\<close> octets replace the first \<open>mlen\<close> octets of the buffer and the rest
  of the buffer is unchanged.
\<close>

theorem oaep_check_output_buffer:
  assumes "RSA_padding_check_PKCS1_OAEP_mgf1 sha1 mem tobuf frm num label md0 mgf1md0
             = Some (res, tobuf')"
  shows "(\<forall>err. res = Inl err \<longrightarrow> tobuf' = tobuf)
       \<and> (\<forall>mlen. res = Inr mlen
             \<and> hash_ok (oaep_md sha1 md0) \<and> hash_ok (oaep_mgf1md sha1 md0 mgf1md0)
             \<and> 0 < EVP_MD_size (oaep_mgf1md sha1 md0 mgf1md0)
           \<longrightarrow> (\<exists>M. M = oaep_recovered (oaep_md sha1 md0) (oaep_mgf1md sha1 md0 mgf1md0) num frm
                  \<and> mlen = int (length M) \<and> length M \<le> length tobuf
                  \<and> tobuf' = M @ drop (length M) tobuf))"
proof (intro conjI allI impI)
  fix err assume "res = Inl err"
  then show "tobuf' = tobuf"
    using assms oaep_check_result_cases [of sha1 mem tobuf frm num label md0 mgf1md0]
    by (auto dest: oaep_check_db_failure [OF sym])
next
  fix mlen
  assume a: "res = Inr mlen
             \<and> hash_ok (oaep_md sha1 md0) \<and> hash_ok (oaep_mgf1md sha1 md0 mgf1md0)
             \<and> 0 < EVP_MD_size (oaep_mgf1md sha1 md0 mgf1md0)"
  then have dec: "RSA_padding_check_PKCS1_OAEP_mgf1 sha1 mem tobuf frm num label md0 mgf1md0
             = Some (Inr mlen, tobuf')" using assms by simp
  have m: "mem = True" using oaep_check_success_pre(1) [OF dec] by simp
  note num = oaep_check_success_pre(2) [OF dec]
  from a have ok: "hash_ok (oaep_md sha1 md0)" "hash_ok (oaep_mgf1md sha1 md0 mgf1md0)"
             "0 < EVP_MD_size (oaep_mgf1md sha1 md0 mgf1md0)" by simp_all
  note steps = oaep_check_steps [OF ok num, of tobuf frm label]
  show "\<exists>M. M = oaep_recovered (oaep_md sha1 md0) (oaep_mgf1md sha1 md0 mgf1md0) num frm
                  \<and> mlen = int (length M) \<and> length M \<le> length tobuf
                  \<and> tobuf' = M @ drop (length M) tobuf"
    using dec unfolding m steps oaep_recovered_def
    by (simp add: Let_def split: if_splits)
qed

theorem oaep_check_output_buffer_witness:
  "RSA_padding_check_PKCS1_OAEP_mgf1 toy_md True [9, 9, 9] [102, 30, 241, 14, 246, 74, 186] 8 []
        None None = Some (Inr 2, [0x41, 0x42, 9])
   \<and> oaep_recovered toy_md toy_md 8 [102, 30, 241, 14, 246, 74, 186] = [0x41, 0x42]
   \<and> RSA_padding_check_PKCS1_OAEP_mgf1 toy_md False [9] [102, 30, 241, 14, 246, 74, 186] 8 []
        None None = Some (Inl ERR_R_MALLOC_FAILURE, [9])"
proof -
  have a: "hash_ok (oaep_md toy_md None)" "hash_ok (oaep_mgf1md toy_md None None)"
    by (simp_all add: oaep_md_def oaep_mgf1md_def hash_ok_toy_md)
  have b: "0 < EVP_MD_size (oaep_mgf1md toy_md None None)"
    by (simp add: oaep_md_def oaep_mgf1md_def toy_md_def)
  have m: "oaep_md toy_md None = toy_md" "oaep_mgf1md toy_md None None = toy_md"
    by (simp_all add: oaep_md_def oaep_mgf1md_def)
  define M where "M = oaep_recovered toy_md toy_md 8 [102, 30, 241, 14, 246, 74, 186]"
  have 1: "RSA_padding_check_PKCS1_OAEP_mgf1 toy_md True [9, 9, 9] [102, 30, 241, 14, 246, 74, 186] 8 []
        None None = Some (Inr 2, [0x41, 0x42, 9])" by code_simp
  obtain tobuf' where 2: "RSA_padding_check_PKCS1_OAEP_mgf1 toy_md False [9] [102, 30, 241, 14, 246, 74, 186] 8 []
        None None = Some (Inl ERR_R_MALLOC_FAILURE, tobuf')"
    by (simp add: RSA_padding_check_PKCS1_OAEP_mgf1_def oaep_md_def oaep_mgf1md_def toy_md_def)
  from oaep_check_output_buffer [OF 1] a b
  have "2 = int (length M)" and "[0x41, 0x42, 9] = M @ drop (length M) [9, 9, 9]"
    unfolding m M_def by simp_all
  then have "M @ [9] = [0x41, 0x42] @ [9]" by simp
  then have "M = [0x41, 0x42]" by (simp only: append_same_eq)
  moreover from oaep_check_output_buffer [OF 2] have "tobuf' = [9]" by simp
  ultimately show ?thesis using 1 2 by (simp add: M_def)
qed

section \<open>The signing loop\<close>

lemma SM2_sig_gen_loop_skip:
  "(\<forall>l. i \<le> l \<and> l < i + d \<longrightarrow> SM2_sig_gen_iter grp dA e n (rng l) = Continue) \<Longrightarrow>
     SM2_sig_gen_loop grp dA e n rng i = SM2_sig_gen_loop grp dA e n rng (i + d)"
proof (induction d arbitrary: i)
  case 0
  then show ?case by simp
next
  case (Suc d)
  have "SM2_sig_gen_iter grp dA e n (rng i) = Continue" using Suc.prems by simp
  then have "SM2_sig_gen_loop grp dA e n rng i = SM2_sig_gen_loop grp dA e n rng (Suc i)"
    by (subst SM2_sig_gen_loop.simps) simp
  also have "\<dots> = SM2_sig_gen_loop grp dA e n rng (Suc i + d)"
  proof (rule Suc.IH)
    show "\<forall>l. Suc i \<le> l \<and> l < Suc i + d \<longrightarrow> SM2_sig_gen_iter grp dA e n (rng l) = Continue"
      using Suc.prems by simp
  qed
  finally show ?case by simp
qed

lemma returns_at_now:
  "step_result (SM2_sig_gen_iter grp dA e n (rng i)) = Some res \<Longrightarrow> returns_at grp dA e n rng i res"
  unfolding returns_at_def by (rule exI [of _ 0]) auto

lemma returns_at_later:
  assumes "SM2_sig_gen_iter grp dA e n (rng i) = Continue"
      and "returns_at grp dA e n rng (Suc i) res"
  shows "returns_at grp dA e n rng i res"
proof -
  from assms(2) obtain d where d:
    "\<forall>l. Suc i \<le> l \<and> l < Suc i + d \<longrightarrow> SM2_sig_gen_iter grp dA e n (rng l) = Continue"
    "step_result (SM2_sig_gen_iter grp dA e n (rng (Suc i + d))) = Some res"
    unfolding returns_at_def by blast
  have "SM2_sig_gen_iter grp dA e n (rng l) = Continue" if "i \<le> l \<and> l < i + Suc d" for l
  proof (cases "l = i")
    case True then show ?thesis using assms(1) by simp
  next
    case False
    then have "Suc i \<le> l \<and> l < Suc i + d" using that by simp
    then show ?thesis using d(1) by blast
  qed
  then show ?thesis unfolding returns_at_def using d(2) by (intro exI [of _ "Suc d"]) simp
qed

lemma SM2_sig_gen_loop_returns:
  assumes "SM2_sig_gen_loop grp dA e n rng i = Some res"
  shows "returns_at grp dA e n rng i res"
proof (rule SM2_sig_gen_loop.raw_induct [where P = returns_at, OF _ assms])
  fix loop grp dA e n rng i res
  assume IH: "\<And>grp dA e n rng i res. loop grp dA e n rng i = Some res \<Longrightarrow> returns_at grp dA e n rng i res"
    and step: "(case SM2_sig_gen_iter grp dA e n (rng i) of
                  Continue \<Rightarrow> loop grp dA e n rng (Suc i)
                | Break sg \<Rightarrow> Some (Inr sg)
                | Goto_done err \<Rightarrow> Some (Inl err)) = Some res"
  show "returns_at grp dA e n rng i res"
  proof (cases "SM2_sig_gen_iter grp dA e n (rng i)")
    case Continue
    with step have "loop grp dA e n rng (Suc i) = Some res" by simp
    from returns_at_later [OF Continue IH [OF this]] show ?thesis .
  next
    case (Break sg)
    with step show ?thesis by (simp add: returns_at_now step_result_def)
  next
    case (Goto_done err)
    with step show ?thesis by (simp add: returns_at_now step_result_def)
  qed
qed

lemma SM2_sig_gen_loop_leaves:
  assumes "SM2_sig_gen_iter grp dA e n (rng i) \<noteq> Continue"
  shows "SM2_sig_gen_loop grp dA e n rng i = step_result (SM2_sig_gen_iter grp dA e n (rng i))"
    and "step_result (SM2_sig_gen_iter grp dA e n (rng i)) \<noteq> None"
  using assms
  by (subst SM2_sig_gen_loop.simps, cases "SM2_sig_gen_iter grp dA e n (rng i)",
      simp_all add: step_result_def split: loop_step.split)

lemma SM2_sig_gen_as_loop:
  "SM2_sig_gen True rng key e =
     SM2_sig_gen_loop (EC_KEY_get0_group key) (EC_KEY_get0_private_key key) e
       (ec_order (EC_KEY_get0_group key)) rng 0"
  by (simp add: SM2_sig_gen_def EC_GROUP_get_order_def Let_def)

section \<open>SM2 verification\<close>

lemma SM2_sig_verify_in_range:
  assumes "1 \<le> r" "r < ec_order (EC_KEY_get0_group key)"
      and "1 \<le> s" "s < ec_order (EC_KEY_get0_group key)"
  shows "SM2_sig_verify True key (r, s) e =
       (if (r + s) mod ec_order (EC_KEY_get0_group key) = 0 then (0, Some SM2_R_BAD_SIGNATURE)
        else case sm2_verify_point key r s of
               Infinity \<Rightarrow> (0, Some ERR_R_EC_LIB)
             | Affine x1 y1 \<Rightarrow>
                 if r = (e + x1) mod ec_order (EC_KEY_get0_group key) then (1, None) else (0, None))"
proof -
  define grp where "grp = EC_KEY_get0_group key"
  define n where "n = ec_order grp"
  define P where "P = sm2_verify_point key r s"
  have n: "n \<noteq> 0" "\<bar>n\<bar> = n" using assms by (simp_all add: n_def grp_def)
  have pt: "EC_POINT_mul grp s (Some (EC_KEY_get0_public_key key, (r + s) mod n)) = Some P"
    by (simp add: EC_POINT_mul_def P_def sm2_verify_point_def grp_def n_def Let_def)
  show ?thesis
    unfolding grp_def [symmetric] n_def [symmetric] P_def [symmetric]
    using assms n
    by (simp add: SM2_sig_verify_def EC_GROUP_get_order_def grp_def [symmetric] n_def [symmetric]
          BN_mod_add_def pt EC_POINT_get_affine_coordinates_GFp_def split: EC_POINT.split)
qed

text \<open>
  Claim C3.  For every key, pre-hash value \<open>e\<close> and pair \<open>(r, s)\<close>, \<open>SM2_sig_verify\<close>
  returns 1 (accepts) if and only if \<open>r\<close> and \<open>s\<close> are in \<open>[1, n - 1]\<close>,
  \<open>t = (r + s) mod n\<close> is not zero, the point \<open>P = [s]G + [t]PA\<close> is not the identity, and
  \<open>r = (e + x1) mod n\<close> for the affine x-coordinate \<open>x1\<close> of \<open>P\<close>; in every other case it
  returns 0 (rejects).  Allocation is taken to succeed.
\<close>

theorem SM2_sig_verify_accepts_iff:
  "fst (SM2_sig_verify True key (r, s) e) =
     (if 1 \<le> r \<and> r < ec_order (EC_KEY_get0_group key)
         \<and> 1 \<le> s \<and> s < ec_order (EC_KEY_get0_group key)
         \<and> (r + s) mod ec_order (EC_KEY_get0_group key) \<noteq> 0
         \<and> (\<exists>x1 y1. sm2_verify_point key r s = Affine x1 y1
                     \<and> r = (e + x1) mod ec_order (EC_KEY_get0_group key))
      then 1 else 0)"
proof (cases "1 \<le> r \<and> r < ec_order (EC_KEY_get0_group key)
                \<and> 1 \<le> s \<and> s < ec_order (EC_KEY_get0_group key)")
  case False
  then show ?thesis
    by (auto simp: SM2_sig_verify_def EC_GROUP_get_order_def Let_def)
next
  case True
  then have v: "SM2_sig_verify True key (r, s) e =
       (if (r + s) mod ec_order (EC_KEY_get0_group key) = 0 then (0, Some SM2_R_BAD_SIGNATURE)
        else case sm2_verify_point key r s of
               Infinity \<Rightarrow> (0, Some ERR_R_EC_LIB)
             | Affine x1 y1 \<Rightarrow>
                 if r = (e + x1) mod ec_order (EC_KEY_get0_group key) then (1, None) else (0, None))"
    by (intro SM2_sig_verify_in_range) simp_all
  show ?thesis
    unfolding v using True by (cases "sm2_verify_point key r s") auto
qed

theorem SM2_sig_verify_accepts_iff_witness:
  "SM2_sig_verify True toy_key (12, 4) 6 = (1, None)
   \<and> sm2_verify_point toy_key 12 4 = Affine 6 3 \<and> (12::int) = (6 + 6) mod 19
   \<and> SM2_sig_verify True toy_key (12, 5) 6 = (0, None)
   \<and> sm2_verify_point toy_key 12 5 = Affine 7 11"
proof -
  have 1: "SM2_sig_verify True toy_key (12, 4) 6 = (1, None)" by code_simp
  have 2: "sm2_verify_point toy_key 12 4 = Affine 6 3" by code_simp
  have 3: "SM2_sig_verify True toy_key (12, 5) 6 = (0, None)" by code_simp
  have 4: "sm2_verify_point toy_key 12 5 = Affine 7 11" by code_simp
  have n: "ec_order (EC_KEY_get0_group toy_key) = 19" by (simp add: toy_key_def toy_group_def)
  from SM2_sig_verify_accepts_iff [of toy_key 12 4 6]
  have "fst (SM2_sig_verify True toy_key (12, 4) 6) = 1" unfolding n 2 by simp
  moreover from SM2_sig_verify_accepts_iff [of toy_key 12 5 6]
  have "fst (SM2_sig_verify True toy_key (12, 5) 6) = 0" unfolding n 4 by simp
  ultimately show ?thesis using 1 2 3 4 by simp
qed

section \<open>The nonce of the signing loop\<close>

lemma BN_rand_range_range: "BN_rand_range raw n = Some k \<Longrightarrow> 0 \<le> k \<and> k < n"
  by (auto simp: BN_rand_range_def split: option.splits if_splits)

lemma SM2_sig_gen_iter_zero_nonce:
  "BN_rand_range raw n = Some 0 \<Longrightarrow> SM2_sig_gen_iter grp dA e n raw = Goto_done ERR_R_EC_LIB"
  by (simp add: SM2_sig_gen_iter_def EC_POINT_mul_def EC_POINT_get_affine_coordinates_GFp_def)

lemma SM2_sig_gen_iter_random_failure:
  "SM2_sig_gen_iter grp dA e n raw = Goto_done SM2_R_RANDOM_NUMBER_GENERATION_FAILED
     \<longleftrightarrow> BN_rand_range raw n = None"
proof (cases "BN_rand_range raw n")
  case None
  then show ?thesis by (simp add: SM2_sig_gen_iter_def)
next
  case (Some k)
  then show ?thesis
    by (simp add: SM2_sig_gen_iter_def split: option.split)
qed

lemma SM2_sig_gen_iter_pass:
  assumes "BN_rand_range raw n = Some k"
  shows "SM2_sig_gen_iter grp dA e n raw = sm2_sign_pass grp dA e n k"
proof -
  have n: "0 < n" "\<bar>n\<bar> = n" "n \<noteq> 0" using BN_rand_range_range [OF assms] by simp_all
  have s: "(s1 * (k - (dA * r) mod n)) mod n = (s1 * (k - r * dA)) mod n" for s1 r
  proof -
    have "(k - (dA * r) mod n) mod n = (k - r * dA) mod n" by (simp add: mod_simps mult.commute)
    from mod_mult_cong [OF refl this, of s1] show ?thesis .
  qed
  show ?thesis
  proof (cases "ec_mul grp (nat k) (ec_G grp)")
    case Infinity
    then show ?thesis
      by (simp add: SM2_sig_gen_iter_def sm2_sign_pass_def assms EC_POINT_mul_def
            EC_POINT_get_affine_coordinates_GFp_def)
  next
    case (Affine x1 y1)
    then show ?thesis
      by (simp add: SM2_sig_gen_iter_def sm2_sign_pass_def assms EC_POINT_mul_def
            EC_POINT_get_affine_coordinates_GFp_def BN_mod_add_def BN_mod_mul_def n s Let_def
            add.commute [of 1 dA] split: option.split)
  qed
qed

lemma SM2_sig_gen_iter_Continue:
  "SM2_sig_gen_iter grp dA e n raw = Continue \<longleftrightarrow> sm2_pass_restarts grp e n raw"
proof (cases "BN_rand_range raw n")
  case None
  then show ?thesis by (simp add: SM2_sig_gen_iter_def sm2_pass_restarts_def)
next
  case (Some k)
  show ?thesis
    unfolding SM2_sig_gen_iter_pass [OF Some]
    by (simp add: sm2_sign_pass_def sm2_pass_restarts_def Some Let_def
          split: EC_POINT.split option.split)
qed

lemma BN_rand_range_uniform:
  assumes "0 \<le> k" "k < n"
  shows "{x. 0 \<le> x \<and> x < n \<and> BN_rand_range (Some x) n = Some k} = {k}"
  using assms by (auto simp: BN_rand_range_def)

text \<open>
  Claim C5 (as the code has it).  In each pass of the signing loop the nonce \<open>k\<close> is the
  value that \<open>BN_rand_range\<close> returns, sampled uniformly from \<open>[0, n - 1]\<close>: the pass
  computes with that \<open>k\<close> what the specification's steps 2 to 5 compute, every \<open>k\<close> of
  \<open>[0, n - 1]\<close> is the value for exactly one of the \<open>n\<close> draws of \<open>[0, n - 1]\<close>, and
  \<open>k = 0\<close> is not excluded: the pass that draws it fails with \<open>ERR_R_EC_LIB\<close>, since
  \<open>[0]G\<close> is the identity and has no affine coordinates.  A pass fails with
  \<open>SM2_R_RANDOM_NUMBER_GENERATION_FAILED\<close> exactly when \<open>BN_rand_range\<close> reports failure,
  and the operation does exactly when \<open>BN_rand_range\<close> reports failure in a pass that the
  loop reaches.
\<close>

theorem SM2_sig_gen_nonce:
  "(SM2_sig_gen_iter grp dA e n raw = Goto_done SM2_R_RANDOM_NUMBER_GENERATION_FAILED
      \<longleftrightarrow> BN_rand_range raw n = None)
   \<and> (\<forall>k. BN_rand_range raw n = Some k \<longrightarrow>
         0 \<le> k \<and> k < n \<and> SM2_sig_gen_iter grp dA e n raw = sm2_sign_pass grp dA e n k)
   \<and> (\<forall>k. 0 \<le> k \<and> k < n \<longrightarrow>
         {x. 0 \<le> x \<and> x < n \<and> BN_rand_range (Some x) n = Some k} = {k})
   \<and> (BN_rand_range raw n = Some 0 \<longrightarrow> SM2_sig_gen_iter grp dA e n raw = Goto_done ERR_R_EC_LIB)
   \<and> (SM2_sig_gen True rng key e = Some (Inl SM2_R_RANDOM_NUMBER_GENERATION_FAILED)
      \<longleftrightarrow> (\<exists>j. BN_rand_range (rng j) (ec_order (EC_KEY_get0_group key)) = None
              \<and> (\<forall>l<j. sm2_pass_restarts (EC_KEY_get0_group key) e
                          (ec_order (EC_KEY_get0_group key)) (rng l))))"
proof -
  define grp' where "grp' = EC_KEY_get0_group key"
  define dA' where "dA' = EC_KEY_get0_private_key key"
  define n' where "n' = ec_order grp'"
  have gen: "SM2_sig_gen True rng key e = SM2_sig_gen_loop grp' dA' e n' rng 0"
    by (simp add: SM2_sig_gen_as_loop grp'_def dA'_def n'_def)
  have "(SM2_sig_gen_loop grp' dA' e n' rng 0 = Some (Inl SM2_R_RANDOM_NUMBER_GENERATION_FAILED))
      \<longleftrightarrow> (\<exists>j. BN_rand_range (rng j) n' = None
              \<and> (\<forall>l<j. sm2_pass_restarts grp' e n' (rng l)))" (is "?L \<longleftrightarrow> ?R")
  proof
    assume ?L
    from SM2_sig_gen_loop_returns [OF this] obtain d where d:
      "\<forall>l. 0 \<le> l \<and> l < 0 + d \<longrightarrow> SM2_sig_gen_iter grp' dA' e n' (rng l) = Continue"
      "step_result (SM2_sig_gen_iter grp' dA' e n' (rng (0 + d)))
         = Some (Inl SM2_R_RANDOM_NUMBER_GENERATION_FAILED)"
      unfolding returns_at_def by blast
    from d(2) have "SM2_sig_gen_iter grp' dA' e n' (rng d) = Goto_done SM2_R_RANDOM_NUMBER_GENERATION_FAILED"
      by (cases "SM2_sig_gen_iter grp' dA' e n' (rng d)") (simp_all add: step_result_def)
    then have "BN_rand_range (rng d) n' = None" by (simp add: SM2_sig_gen_iter_random_failure)
    then show ?R using d(1) by (intro exI [of _ d]) (simp add: SM2_sig_gen_iter_Continue)
  next
    assume ?R
    then obtain j where j: "BN_rand_range (rng j) n' = None"
      "\<forall>l<j. sm2_pass_restarts grp' e n' (rng l)" by blast
    have "SM2_sig_gen_loop grp' dA' e n' rng 0 = SM2_sig_gen_loop grp' dA' e n' rng (0 + j)"
      by (rule SM2_sig_gen_loop_skip) (simp add: j(2) SM2_sig_gen_iter_Continue)
    also have "\<dots> = Some (Inl SM2_R_RANDOM_NUMBER_GENERATION_FAILED)"
      by (subst SM2_sig_gen_loop.simps) (simp add: SM2_sig_gen_iter_def j(1))
    finally show ?L .
  qed
  then show ?thesis
    unfolding gen grp'_def [symmetric] dA'_def [symmetric] n'_def [symmetric]
    using SM2_sig_gen_iter_random_failure [of grp dA e n raw] BN_rand_range_range [of raw n]
      SM2_sig_gen_iter_zero_nonce [of raw n grp dA e] SM2_sig_gen_iter_pass [of raw n _ grp dA e]
      BN_rand_range_uniform [of _ n]
    by blast
qed

theorem SM2_sig_gen_nonce_witness:
  "BN_rand_range (Some 38) 19 = Some 0
   \<and> sm2_sign_pass toy_group 7 6 19 0 = Goto_done ERR_R_EC_LIB
   \<and> SM2_sig_gen_iter toy_group 7 6 19 (Some 38) = Goto_done ERR_R_EC_LIB
   \<and> BN_rand_range (Some 21) 19 = Some 2
   \<and> sm2_sign_pass toy_group 7 6 19 2 = Break (12, 4)
   \<and> SM2_sig_gen_iter toy_group 7 6 19 (Some 21) = Break (12, 4)
   \<and> {x. 0 \<le> x \<and> x < 19 \<and> BN_rand_range (Some x) 19 = Some 2} = {2}
   \<and> BN_rand_range None 19 = None
   \<and> SM2_sig_gen_iter toy_group 7 6 19 None = Goto_done SM2_R_RANDOM_NUMBER_GENERATION_FAILED"
proof -
  have 1: "BN_rand_range (Some 38) 19 = Some 0" by (simp add: BN_rand_range_def)
  have 2: "BN_rand_range None 19 = None" by (simp add: BN_rand_range_def)
  have 3: "BN_rand_range (Some 21) 19 = Some 2" by (simp add: BN_rand_range_def)
  have p0: "sm2_sign_pass toy_group 7 6 19 0 = Goto_done ERR_R_EC_LIB" by code_simp
  have p2: "sm2_sign_pass toy_group 7 6 19 2 = Break (12, 4)" by code_simp
  have r: "(0::int) \<le> 2 \<and> (2::int) < 19" by simp
  from SM2_sig_gen_nonce [of toy_group 7 6 19 "Some 38"] 1 p0
  have a: "SM2_sig_gen_iter toy_group 7 6 19 (Some 38) = Goto_done ERR_R_EC_LIB" by metis
  from SM2_sig_gen_nonce [of toy_group 7 6 19 "Some 21"] 3 p2
  have b: "SM2_sig_gen_iter toy_group 7 6 19 (Some 21) = Break (12, 4)" by metis
  from SM2_sig_gen_nonce [of toy_group 7 6 19 "Some 21"] r
  have u: "{x. 0 \<le> x \<and> x < 19 \<and> BN_rand_range (Some x) 19 = Some 2} = {2}" by blast
  from SM2_sig_gen_nonce [of toy_group 7 6 19 None] 2
  have c: "SM2_sig_gen_iter toy_group 7 6 19 None = Goto_done SM2_R_RANDOM_NUMBER_GENERATION_FAILED"
    by blast
  show ?thesis using 1 2 3 p0 p2 a b c u by simp
qed

text \<open>
  The claim as stated has \<open>k\<close> in \<open>[1, n - 1]\<close>.  On the small curve the random source
  delivers 0, \<open>BN_rand_range\<close> returns \<open>k = 0\<close>, and signing fails with \<open>ERR_R_EC_LIB\<close>
  although the random source did not fail.
\<close>

theorem SM2_sig_gen_nonce_zero_counterexample:
  "BN_rand_range (Some 0) (ec_order (EC_KEY_get0_group toy_key)) = Some 0
   \<and> SM2_sig_gen True (\<lambda>i. Some 0) toy_key 6 = Some (Inl ERR_R_EC_LIB)"
  by code_simp

section \<open>The signing loop has no retry cap\<close>

lemma SM2_sig_gen_loop_diverges:
  assumes "\<forall>l. SM2_sig_gen_iter grp dA e n (rng l) = Continue"
  shows "SM2_sig_gen_loop grp dA e n rng i = None"
proof (cases "SM2_sig_gen_loop grp dA e n rng i")
  case None
  then show ?thesis .
next
  case (Some res)
  from SM2_sig_gen_loop_returns [OF this] obtain d where
    "step_result (SM2_sig_gen_iter grp dA e n (rng (i + d))) = Some res"
    unfolding returns_at_def by blast
  then show ?thesis using assms by (simp add: step_result_def)
qed

text \<open>
  Claim C7 (as the code has it).  The signing loop has no cap on its restarts and no
  error for giving up.  A pass restarts exactly when \<open>r = 0\<close> or \<open>r + k = n\<close>; when the
  first \<open>N\<close> passes restart and pass \<open>N\<close> does not, for any \<open>N\<close>, signing returns the
  outcome of pass \<open>N\<close>; when every pass restarts, signing does not return.
\<close>

theorem SM2_sig_gen_no_retry_cap:
  "(SM2_sig_gen_iter grp dA e n raw = Continue \<longleftrightarrow> sm2_pass_restarts grp e n raw)
   \<and> ((\<forall>l<N. sm2_pass_restarts (EC_KEY_get0_group key) e (ec_order (EC_KEY_get0_group key)) (rng l))
        \<and> \<not> sm2_pass_restarts (EC_KEY_get0_group key) e (ec_order (EC_KEY_get0_group key)) (rng N)
      \<longrightarrow> SM2_sig_gen True rng key e
            = step_result (SM2_sig_gen_iter (EC_KEY_get0_group key) (EC_KEY_get0_private_key key) e
                (ec_order (EC_KEY_get0_group key)) (rng N))
          \<and> SM2_sig_gen True rng key e \<noteq> None)
   \<and> ((\<forall>l. sm2_pass_restarts (EC_KEY_get0_group key) e (ec_order (EC_KEY_get0_group key)) (rng l))
      \<longrightarrow> SM2_sig_gen True rng key e = None)"
proof (intro conjI impI)
  show "SM2_sig_gen_iter grp dA e n raw = Continue \<longleftrightarrow> sm2_pass_restarts grp e n raw"
    by (rule SM2_sig_gen_iter_Continue)
next
  define G where "G = EC_KEY_get0_group key"
  define d where "d = EC_KEY_get0_private_key key"
  define m where "m = ec_order G"
  assume a: "(\<forall>l<N. sm2_pass_restarts (EC_KEY_get0_group key) e (ec_order (EC_KEY_get0_group key)) (rng l))
        \<and> \<not> sm2_pass_restarts (EC_KEY_get0_group key) e (ec_order (EC_KEY_get0_group key)) (rng N)"
  then have r: "\<forall>l. 0 \<le> l \<and> l < 0 + N \<longrightarrow> SM2_sig_gen_iter G d e m (rng l) = Continue"
    and l: "SM2_sig_gen_iter G d e m (rng N) \<noteq> Continue"
    by (simp_all add: SM2_sig_gen_iter_Continue G_def m_def)
  have "SM2_sig_gen_loop G d e m rng 0 = SM2_sig_gen_loop G d e m rng (0 + N)"
    using r by (rule SM2_sig_gen_loop_skip)
  then have eq: "SM2_sig_gen True rng key e = step_result (SM2_sig_gen_iter G d e m (rng N))"
    using SM2_sig_gen_loop_leaves(1) [of G d e m rng N, OF l]
    by (simp add: SM2_sig_gen_as_loop G_def d_def m_def)
  then show "SM2_sig_gen True rng key e
            = step_result (SM2_sig_gen_iter (EC_KEY_get0_group key) (EC_KEY_get0_private_key key) e
                (ec_order (EC_KEY_get0_group key)) (rng N))"
    by (simp add: G_def d_def m_def)
  show "SM2_sig_gen True rng key e \<noteq> None"
    unfolding eq by (rule SM2_sig_gen_loop_leaves(2) [of G d e m rng N, OF l])
next
  assume "\<forall>l. sm2_pass_restarts (EC_KEY_get0_group key) e (ec_order (EC_KEY_get0_group key)) (rng l)"
  then have "\<forall>l. SM2_sig_gen_iter (EC_KEY_get0_group key) (EC_KEY_get0_private_key key) e
                (ec_order (EC_KEY_get0_group key)) (rng l) = Continue"
    by (simp add: SM2_sig_gen_iter_Continue)
  then show "SM2_sig_gen True rng key e = None"
    unfolding SM2_sig_gen_as_loop by (rule SM2_sig_gen_loop_diverges)
qed

theorem SM2_sig_gen_no_retry_cap_witness:
  "sm2_pass_restarts toy_group 14 19 (Some 1)
   \<and> \<not> sm2_pass_restarts toy_group 14 19 (Some 2)
   \<and> SM2_sig_gen_iter toy_group 7 14 19 (Some 2) = Break (1, 16)
   \<and> SM2_sig_gen True (\<lambda>i. if i < 40 then Some 1 else Some 2) toy_key 14 = Some (Inr (1, 16))"
proof -
  have k: "EC_KEY_get0_group toy_key = toy_group" "EC_KEY_get0_private_key toy_key = 7"
    "ec_order toy_group = 19" by (simp_all add: toy_key_def toy_group_def)
  have c: "sm2_pass_restarts toy_group 14 19 (Some 1)" by code_simp
  have n: "\<not> sm2_pass_restarts toy_group 14 19 (Some 2)" by code_simp
  have b: "SM2_sig_gen_iter toy_group 7 14 19 (Some 2) = Break (1, 16)" by code_simp
  have h: "(\<forall>l<40::nat. sm2_pass_restarts toy_group 14 19 (if l < 40 then Some 1 else Some 2))
           \<and> \<not> sm2_pass_restarts toy_group 14 19 (if (40::nat) < 40 then Some 1 else Some 2)"
    using c n by simp
  from SM2_sig_gen_no_retry_cap [of toy_group 7 14 19 "Some 1" 40 toy_key
         "\<lambda>i. if i < 40 then Some 1 else Some 2"] h
  have "SM2_sig_gen True (\<lambda>i. if i < 40 then Some 1 else Some 2) toy_key 14
          = step_result (SM2_sig_gen_iter toy_group 7 14 19 (Some 2))"
    unfolding k by simp
  then show ?thesis using b c n by (simp add: step_result_def)
qed

text \<open>
  The claim as stated has signing fail after a fixed number of restarts.  On the small
  curve with \<open>e = 14\<close>, the nonce \<open>k = 1\<close> gives \<open>r = 0\<close>: with a random source that always
  delivers 1 signing never returns, and after 40 restarts it still returns the signature
  of the first pass that does not restart.
\<close>

theorem SM2_sig_gen_never_gives_up_counterexample:
  "SM2_sig_gen True (\<lambda>i. Some 1) toy_key 14 = None
   \<and> SM2_sig_gen True (\<lambda>i. if i < 40 then Some 1 else Some 2) toy_key 14 = Some (Inr (1, 16))"
proof -
  have c: "SM2_sig_gen_iter toy_group 7 14 19 (Some 1) = Continue" by code_simp
  have g: "SM2_sig_gen True rng toy_key 14 = SM2_sig_gen_loop toy_group 7 14 19 rng 0" for rng
    by (simp add: SM2_sig_gen_def EC_GROUP_get_order_def Let_def toy_key_def toy_group_def)
  have "SM2_sig_gen_loop toy_group 7 14 19 (\<lambda>i. Some 1) 0 = None"
    by (rule SM2_sig_gen_loop_diverges) (simp add: c)
  moreover have "SM2_sig_gen True (\<lambda>i. if i < 40 then Some 1 else Some 2) toy_key 14 = Some (Inr (1, 16))"
    by code_simp
  ultimately show ?thesis by (simp add: g)
qed

section \<open>Signatures with \<open>s = 0\<close>\<close>

text \<open>
  Claim C6 asks for \<open>1 \<le> r < n\<close> and \<open>1 \<le> s < n\<close> in every signature returned.  The
  loop restarts for \<open>r = 0\<close> and for \<open>r + k = n\<close>, and does not test \<open>s\<close>.  On the small
  curve with \<open>dA = 7\<close>, \<open>e = 6\<close> and the nonce \<open>k = 1\<close>: \<open>r = 11\<close>,
  \<open>k - r * dA = 0 (mod 19)\<close>, and the signature returned is \<open>(11, 0)\<close>, which the
  verification of the same file rejects as out of range.
\<close>

theorem SM2_sig_gen_zero_s:
  "SM2_sig_gen True (\<lambda>i. Some 1) toy_key 6 = Some (Inr (11, 0))
   \<and> SM2_sig_gen_iter toy_group 7 6 19 (Some 1) = Break (11, 0)
   \<and> SM2_sig_verify True toy_key (11, 0) 6 = (0, Some SM2_R_BAD_SIGNATURE)"
  by code_simp

text \<open>
  Claim C2 asks that verifying a signature produced by \<open>SM2_do_sign\<close> on the same key,
  hash, identity and message accepts.  Evaluated on the small curve with a valid key pair
  (\<open>PA = [dA]G\<close>), a well-behaved hash and the nonce \<open>k = 1\<close>: \<open>SM2_do_sign\<close> returns
  \<open>(11, 0)\<close> and \<open>SM2_do_verify\<close> rejects it.
\<close>

theorem SM2_do_sign_verify_rejects:
  "hash_ok toy_md
   \<and> ec_mul toy_group 7 (ec_G toy_group) = EC_KEY_get0_public_key toy_key
   \<and> SM2_do_sign True (\<lambda>i. Some 1) toy_za toy_key toy_md [1, 2, 3, 4] [1] = Some (Inr (11, 0))
   \<and> SM2_do_verify True toy_za toy_key toy_md (11, 0) [1, 2, 3, 4] [1] = (0, Some SM2_R_BAD_SIGNATURE)"
proof -
  have "ec_mul toy_group 7 (ec_G toy_group) = EC_KEY_get0_public_key toy_key" by code_simp
  moreover have "SM2_do_sign True (\<lambda>i. Some 1) toy_za toy_key toy_md [1, 2, 3, 4] [1] = Some (Inr (11, 0))"
    by code_simp
  moreover have "SM2_do_verify True toy_za toy_key toy_md (11, 0) [1, 2, 3, 4] [1]
                   = (0, Some SM2_R_BAD_SIGNATURE)"
    by code_simp
  ultimately show ?thesis using hash_ok_toy_md by simp
qed

text \<open>
  What does hold for every signature that a pass returns: \<open>k\<close>, \<open>r\<close> are in
  \<open>[1, n - 1]\<close>, \<open>r + k\<close> is not \<open>n\<close>, and \<open>s\<close> is in \<open>[0, n - 1]\<close>.
\<close>

lemma SM2_sig_gen_iter_ranges:
  assumes "SM2_sig_gen_iter grp dA e n raw = Break (r, s)"
  shows "\<exists>k. BN_rand_range raw n = Some k \<and> 1 \<le> k \<and> k < n
           \<and> 1 \<le> r \<and> r < n \<and> r + k \<noteq> n \<and> 0 \<le> s \<and> s < n"
proof -
  from assms obtain k where k: "BN_rand_range raw n = Some k"
    by (cases "BN_rand_range raw n") (simp_all add: SM2_sig_gen_iter_def)
  then have n: "0 < n" "0 \<le> k" "k < n" "\<bar>n\<bar> = n" "n \<noteq> 0"
    using BN_rand_range_range [OF k] by simp_all
  have k0: "k \<noteq> 0" using assms SM2_sig_gen_iter_zero_nonce [of raw n grp dA e] k by auto
  from assms k obtain x1 where rs:
    "r = (e + x1) mod n" "r \<noteq> 0" "r + k \<noteq> n"
    "\<exists>s1 tmp. s = (s1 * (k - tmp)) mod n"
    unfolding SM2_sig_gen_iter_def BN_mod_add_def BN_mod_mul_def
    by (simp add: n split: option.splits if_splits) blast
  have r: "0 \<le> r" "r < n" using rs(1) n(1) by simp_all
  then have "1 \<le> r" using rs(2) by simp
  moreover have "1 \<le> k" using k0 n(2) by simp
  moreover have "0 \<le> s" "s < n" using rs(4) n(1) by auto
  ultimately show ?thesis using k n(3) r(2) rs(3) by (intro exI [of _ k]) simp
qed

section \<open>The round trip for signatures with \<open>s\<close> not zero\<close>

text \<open>
  The signatures with \<open>s = 0\<close> are the only ones that break the round trip: for a valid
  key on a group whose multiples of the base point add up, every signature \<open>(r, s)\<close> that
  the generator returns with \<open>s\<close> not zero is accepted by the verification, for the
  pre-hash value as well as for the message.
\<close>

lemma ec_additiveD:
  assumes "ec_additive grp" and "a < nat (ec_order grp)" and "b < nat (ec_order grp)"
  shows "ec_add grp (ec_mul grp a (ec_G grp)) (ec_mul grp b (ec_G grp))
           = ec_mul grp ((a + b) mod nat (ec_order grp)) (ec_G grp)"
  using assms by (simp add: ec_additive_def list_all_iff)

lemma ec_mul_multiple:
  assumes add: "ec_additive grp" and d: "d < nat (ec_order grp)"
  shows "ec_mul grp t (ec_mul grp d (ec_G grp)) = ec_mul grp ((t * d) mod nat (ec_order grp)) (ec_G grp)"
proof (induction t)
  case 0
  then show ?case by simp
next
  case (Suc t)
  define m where "m = nat (ec_order grp)"
  have m: "0 < m" using d by (simp add: m_def)
  have "ec_mul grp (Suc t) (ec_mul grp d (ec_G grp))
          = ec_add grp (ec_mul grp d (ec_G grp)) (ec_mul grp ((t * d) mod m) (ec_G grp))"
    using Suc by (simp add: m_def)
  also have "\<dots> = ec_mul grp ((d + (t * d) mod m) mod m) (ec_G grp)"
    using ec_additiveD [OF add d, of "(t * d) mod m"] m by (simp add: m_def)
  also have "(d + (t * d) mod m) mod m = (Suc t * d) mod m" by (simp add: mod_simps)
  finally show ?case by (simp add: m_def)
qed

lemma BN_mod_inverse_Some:
  "BN_mod_inverse a n = Some x \<Longrightarrow> (a * x) mod n = 1 \<and> 0 \<le> x \<and> x < n"
  by (auto simp: BN_mod_inverse_def find_Some_iff)

lemma sm2_scalar_identity:
  fixes n :: int
  assumes inv: "((dA + 1) * s1) mod n = 1"
      and s: "s = (s1 * (k - (dA * r) mod n)) mod n"
      and t: "t = (r + s) mod n"
      and k: "0 \<le> k" "k < n"
  shows "(s + t * dA) mod n = k"
proof -
  have 1: "(k - (dA * r) mod n) mod n = (k - dA * r) mod n" by (simp add: mod_simps)
  have 2: "s mod n = (s1 * (k - dA * r)) mod n"
    unfolding s using mod_mult_cong [OF refl 1, of s1] by simp
  have 3: "t mod n = (r + s1 * (k - dA * r)) mod n"
    unfolding t using mod_add_cong [OF refl 2, of r] by simp
  have 4: "(t * dA) mod n = ((r + s1 * (k - dA * r)) * dA) mod n"
    by (rule mod_mult_cong [OF 3 refl])
  have "(s + t * dA) mod n = (s1 * (k - dA * r) + (r + s1 * (k - dA * r)) * dA) mod n"
    by (rule mod_add_cong [OF 2 4])
  also have "s1 * (k - dA * r) + (r + s1 * (k - dA * r)) * dA
               = (k - dA * r) * ((dA + 1) * s1) + r * dA"
    by (simp add: algebra_simps)
  also have "((k - dA * r) * ((dA + 1) * s1) + r * dA) mod n
               = ((k - dA * r) * (((dA + 1) * s1) mod n) + r * dA) mod n"
    by (rule mod_add_cong [OF mod_mult_right_eq [symmetric] refl])
  also have "\<dots> = k mod n" unfolding inv by (simp add: algebra_simps)
  also have "\<dots> = k" using k by simp
  finally show ?thesis .
qed

lemma SM2_sig_gen_iter_Break:
  assumes "SM2_sig_gen_iter grp dA e n raw = Break (r, s)"
  obtains k x1 y1 s1 where
    "BN_rand_range raw n = Some k"
    "ec_mul grp (nat k) (ec_G grp) = Affine x1 y1"
    "r = (e + x1) mod n" "r \<noteq> 0" "r + k \<noteq> n"
    "BN_mod_inverse (dA + 1) n = Some s1"
    "s = (s1 * (k - (dA * r) mod n)) mod n"
proof -
  from assms obtain k where k: "BN_rand_range raw n = Some k"
    by (cases "BN_rand_range raw n") (simp_all add: SM2_sig_gen_iter_def)
  then have n: "0 < n" "\<bar>n\<bar> = n" "n \<noteq> 0"
    using BN_rand_range_range [OF k] by simp_all
  obtain x1 y1 where kG: "ec_mul grp (nat k) (ec_G grp) = Affine x1 y1"
    using assms k
    by (cases "ec_mul grp (nat k) (ec_G grp)")
       (simp_all add: SM2_sig_gen_iter_def EC_POINT_mul_def EC_POINT_get_affine_coordinates_GFp_def)
  have "SM2_sig_gen_iter grp dA e n raw =
             (if (e + x1) mod n = 0 then Continue
               else if (e + x1) mod n + k = n then Continue
               else case BN_mod_inverse (dA + 1) n of
                      None \<Rightarrow> Goto_done ERR_R_BN_LIB
                    | Some s1 \<Rightarrow> Break ((e + x1) mod n, (s1 * (k - (dA * ((e + x1) mod n)) mod n)) mod n))"
    by (simp add: SM2_sig_gen_iter_def k EC_POINT_mul_def kG EC_POINT_get_affine_coordinates_GFp_def
          BN_mod_add_def BN_mod_mul_def n split: option.split)
  with assms have step: "(if (e + x1) mod n = 0 then Continue
               else if (e + x1) mod n + k = n then Continue
               else case BN_mod_inverse (dA + 1) n of
                      None \<Rightarrow> Goto_done ERR_R_BN_LIB
                    | Some s1 \<Rightarrow> Break ((e + x1) mod n, (s1 * (k - (dA * ((e + x1) mod n)) mod n)) mod n))
              = Break (r, s)"
    by simp
  then have r0: "(e + x1) mod n \<noteq> 0" and rk: "(e + x1) mod n + k \<noteq> n"
    by (auto split: if_splits)
  with step obtain s1 where s1: "BN_mod_inverse (dA + 1) n = Some s1"
    by (cases "BN_mod_inverse (dA + 1) n") simp_all
  from step r0 rk s1 have "r = (e + x1) mod n" "s = (s1 * (k - (dA * r) mod n)) mod n"
    by auto
  with k kG r0 rk s1 that show thesis by blast
qed

lemma SM2_sign_verify_nonzero_s:
  assumes add: "ec_additive (EC_KEY_get0_group key)"
      and key: "sm2_valid_key key"
      and brk: "SM2_sig_gen_iter (EC_KEY_get0_group key) (EC_KEY_get0_private_key key) e
                  (ec_order (EC_KEY_get0_group key)) raw = Break (r, s)"
      and s0: "s \<noteq> 0"
  shows "SM2_sig_verify True key (r, s) e = (1, None)"
proof -
  define grp where "grp = EC_KEY_get0_group key"
  define dA where "dA = EC_KEY_get0_private_key key"
  define n where "n = ec_order grp"
  define G where "G = ec_G grp"
  from brk obtain k x1 y1 s1 where
    k: "BN_rand_range raw n = Some k"
    and kG: "ec_mul grp (nat k) G = Affine x1 y1"
    and r: "r = (e + x1) mod n" "r \<noteq> 0" "r + k \<noteq> n"
    and s1: "BN_mod_inverse (dA + 1) n = Some s1"
    and s: "s = (s1 * (k - (dA * r) mod n)) mod n"
    unfolding grp_def [symmetric] dA_def [symmetric] n_def [symmetric] G_def [symmetric]
    by (rule SM2_sig_gen_iter_Break [of grp dA e n raw r s, unfolded G_def [symmetric]])
  have kr: "0 \<le> k" "k < n" using BN_rand_range_range [OF k] by simp_all
  then have n: "0 < n" by simp
  have dA: "1 \<le> dA" "dA < n" and PA: "EC_KEY_get0_public_key key = ec_mul grp (nat dA) G"
    using key by (simp_all add: sm2_valid_key_def grp_def dA_def n_def G_def)
  have "0 \<le> r" "0 \<le> s" using r(1) s n by simp_all
  then have rr1: "1 \<le> r" and sr1: "1 \<le> s" using r(2) s0 by linarith+
  have rr2: "r < n" and sr2: "s < n" using r(1) s n by simp_all
  note rr = rr1 rr2 and sr = sr1 sr2
  define t where "t = (r + s) mod n"
  have tr: "0 \<le> t" "t < n" using n by (simp_all add: t_def)
  have inv: "((dA + 1) * s1) mod n = 1" using BN_mod_inverse_Some [OF s1] by simp
  have ident: "(s + t * dA) mod n = k"
    by (rule sm2_scalar_identity [OF inv s t_def kr])
  have t0: "t \<noteq> 0"
  proof
    assume "t = 0"
    with ident have "s mod n = k" by simp
    then have "s = k" using sr by simp
    then have "(r + k) mod n = 0" using \<open>t = 0\<close> by (simp add: t_def)
    moreover have "0 < r + k" "r + k < 2 * n" using rr kr by simp_all
    ultimately have "r + k = n"
    proof (cases "r + k < n")
      case True
      then have "(r + k) mod n = r + k" using \<open>0 < r + k\<close> by simp
      then show ?thesis using \<open>(r + k) mod n = 0\<close> \<open>0 < r + k\<close> by simp
    next
      case False
      then have "0 \<le> r + k - n" "r + k - n < n" using \<open>r + k < 2 * n\<close> by simp_all
      then have "(r + k - n) mod n = r + k - n" by (rule mod_pos_pos_trivial)
      moreover have "(r + k - n) mod n = (r + k) mod n" by simp
      ultimately show ?thesis using \<open>(r + k) mod n = 0\<close> by simp
    qed
    with r(3) show False by simp
  qed
  have nn: "nat s < nat n" "nat t < nat n" "nat dA < nat n" using sr tr dA n by simp_all
  have "ec_mul grp (nat t) (ec_mul grp (nat dA) G)
          = ec_mul grp ((nat t * nat dA) mod nat n) G"
    unfolding G_def n_def by (rule ec_mul_multiple [OF add [folded grp_def] nn(3) [unfolded n_def]])
  then have "ec_add grp (ec_mul grp (nat s) G) (ec_mul grp (nat t) (ec_mul grp (nat dA) G))
          = ec_mul grp ((nat s + (nat t * nat dA) mod nat n) mod nat n) G"
    using ec_additiveD [OF add [folded grp_def] nn(1) [unfolded n_def], of "(nat t * nat dA) mod nat n"] n
    by (simp add: G_def n_def)
  also have "(nat s + (nat t * nat dA) mod nat n) mod nat n = nat ((s + t * dA) mod n)"
  proof -
    have "(nat s + (nat t * nat dA) mod nat n) mod nat n = (nat s + nat t * nat dA) mod nat n"
      by (simp add: mod_simps)
    also have "nat s + nat t * nat dA = nat (s + t * dA)"
      using sr tr dA by (simp add: nat_add_distrib nat_mult_distrib)
    also have "nat (s + t * dA) mod nat n = nat ((s + t * dA) mod n)"
      using sr tr dA n by (simp add: nat_mod_distrib)
    finally show ?thesis .
  qed
  finally have P: "ec_add grp (ec_mul grp (nat s) G) (ec_mul grp (nat t) (EC_KEY_get0_public_key key))
                     = Affine x1 y1"
    unfolding ident kG PA .
  have "sm2_verify_point key r s = Affine x1 y1"
    using P by (simp add: sm2_verify_point_def grp_def [symmetric] n_def [symmetric]
                  G_def [symmetric] t_def [symmetric] Let_def)
  moreover have "(r + s) mod ec_order (EC_KEY_get0_group key) \<noteq> 0"
    using t0 by (simp add: t_def n_def grp_def)
  ultimately show ?thesis
    using rr sr r(1)
    by (simp add: SM2_sig_verify_in_range grp_def [symmetric] n_def [symmetric])
qed

lemma SM2_sig_gen_verify_nonzero_s:
  assumes add: "ec_additive (EC_KEY_get0_group key)"
      and key: "sm2_valid_key key"
      and sig: "SM2_sig_gen True rng key e = Some (Inr (r, s))"
      and s0: "s \<noteq> 0"
  shows "SM2_sig_verify True key (r, s) e = (1, None)"
proof -
  from sig have "SM2_sig_gen_loop (EC_KEY_get0_group key) (EC_KEY_get0_private_key key) e
                   (ec_order (EC_KEY_get0_group key)) rng 0 = Some (Inr (r, s))"
    by (simp add: SM2_sig_gen_def EC_GROUP_get_order_def Let_def)
  from SM2_sig_gen_loop_returns [OF this] obtain d where
    "step_result (SM2_sig_gen_iter (EC_KEY_get0_group key) (EC_KEY_get0_private_key key) e
       (ec_order (EC_KEY_get0_group key)) (rng (0 + d))) = Some (Inr (r, s))"
    unfolding returns_at_def by blast
  then have "SM2_sig_gen_iter (EC_KEY_get0_group key) (EC_KEY_get0_private_key key) e
       (ec_order (EC_KEY_get0_group key)) (rng d) = Break (r, s)"
    by (cases "SM2_sig_gen_iter (EC_KEY_get0_group key) (EC_KEY_get0_private_key key) e
       (ec_order (EC_KEY_get0_group key)) (rng d)") (simp_all add: step_result_def)
  from SM2_sign_verify_nonzero_s [OF add key this s0] show ?thesis .
qed

lemma SM2_do_sign_verify_nonzero_s:
  assumes add: "ec_additive (EC_KEY_get0_group key)"
      and key: "sm2_valid_key key"
      and sig: "SM2_do_sign True rng za_fn key digest user_id msg = Some (Inr (r, s))"
      and s0: "s \<noteq> 0"
  shows "SM2_do_verify True za_fn key digest (r, s) user_id msg = (1, None)"
proof (cases "SM2_compute_msg_hash True za_fn digest key user_id msg")
  case (Inl err)
  with sig show ?thesis by (simp add: SM2_do_sign_def)
next
  case (Inr e)
  with sig have "SM2_sig_gen True rng key e = Some (Inr (r, s))" by (simp add: SM2_do_sign_def)
  from SM2_sig_gen_verify_nonzero_s [OF add key this s0] Inr
  show ?thesis by (simp add: SM2_do_verify_def)
qed

lemma SM2_do_sign_verify_nonzero_s_instance:
  "ec_additive (EC_KEY_get0_group toy_key) \<and> sm2_valid_key toy_key
   \<and> SM2_do_sign True (\<lambda>i. Some 2) toy_za toy_key toy_md [1, 2, 3, 4] [1] = Some (Inr (12, 4))
   \<and> SM2_do_verify True toy_za toy_key toy_md (12, 4) [1, 2, 3, 4] [1] = (1, None)"
proof -
  have a: "ec_additive (EC_KEY_get0_group toy_key)" by code_simp
  have k: "sm2_valid_key toy_key" by code_simp
  have s: "SM2_do_sign True (\<lambda>i. Some 2) toy_za toy_key toy_md [1, 2, 3, 4] [1] = Some (Inr (12, 4))"
    by code_simp
  from SM2_do_sign_verify_nonzero_s [OF a k s] a k s show ?thesis by simp
qed

end
